theory Spec2Isabelle
  imports Main "HOL-Library.AList"
begin

section \<open>Python values used by \<open>glow_basic.py\<close>\<close>

text \<open>
  Exceptions are values. \<open>glowparse\<close> raises \<open>AssertionError\<close> through its
  \<open>assert\<close> statements and \<open>ValueError\<close> through its explicit \<open>raise\<close>;
  \<open>numpy\<close> raises \<open>ValueError\<close> for ragged rows and \<open>IndexError\<close> for an
  index with too many dimensions; \<open>xarray\<close> raises \<open>ValueError\<close> for data
  whose shape conflicts with its coordinates.
\<close>

datatype error = AssertionError | ValueError | IndexError

subsection \<open>\<open>str\<close> of a non-negative integer\<close>

definition digit_char :: "nat \<Rightarrow> char" where
  "digit_char d = ''0123456789'' ! d"

fun str_nat :: "nat \<Rightarrow> string" where
  "str_nat n = (if n < 10 then [digit_char n] else str_nat (n div 10) @ [digit_char (n mod 10)])"

declare str_nat.simps [simp del]

text \<open>The value of a string of decimal digits, as Python's \<open>int(s)\<close> reads it.\<close>

definition digit_val :: "char \<Rightarrow> nat" where
  "digit_val c = of_char c - 48"

definition int_of_digits :: "string \<Rightarrow> nat" where
  "int_of_digits s = foldl (\<lambda>a c. 10 * a + digit_val c) 0 s"

text \<open>\<open>"%03d"\<close>-style padding with zeros on the left, up to width \<open>w\<close>.\<close>

definition zpad :: "nat \<Rightarrow> string \<Rightarrow> string" where
  "zpad w s = replicate (w - length s) (CHR ''0'') @ s"

section \<open>\<open>datetime\<close> and \<open>glowdate\<close>\<close>

text \<open>
  A \<open>datetime.datetime\<close> object. Its constructor accepts exactly the field values
  described by \<open>valid_datetime\<close> (years 1 to 9999, no leap second).
\<close>

record datetime =
  year :: nat
  month :: nat
  day :: nat
  hour :: nat
  minute :: nat
  second :: nat
  microsecond :: nat

definition is_leap :: "nat \<Rightarrow> bool" where
  "is_leap y = (y mod 4 = 0 \<and> (y mod 100 \<noteq> 0 \<or> y mod 400 = 0))"

definition DAYS_IN_MONTH :: "nat list" where
  "DAYS_IN_MONTH = [31, 28, 31, 30, 31, 30, 31, 31, 30, 31, 30, 31]"

definition days_in_month :: "nat \<Rightarrow> nat \<Rightarrow> nat" where
  "days_in_month y m = (if m = 2 \<and> is_leap y then 29 else DAYS_IN_MONTH ! (m - 1))"

definition days_before_month :: "nat \<Rightarrow> nat \<Rightarrow> nat" where
  "days_before_month y m =
     sum_list (take (m - 1) DAYS_IN_MONTH) + (if 2 < m \<and> is_leap y then 1 else 0)"

definition valid_datetime :: "datetime \<Rightarrow> bool" where
  "valid_datetime t =
     (1 \<le> year t \<and> year t \<le> 9999 \<and> 1 \<le> month t \<and> month t \<le> 12 \<and>
      1 \<le> day t \<and> day t \<le> days_in_month (year t) (month t) \<and>
      hour t < 24 \<and> minute t < 60 \<and> second t < 60 \<and> microsecond t < 1000000)"

text \<open>Day of the year, 1 for the first of January (\<open>tm_yday\<close>).\<close>

definition yday :: "datetime \<Rightarrow> nat" where
  "yday t = days_before_month (year t) (month t) + day t"

text \<open>\<open>t.strftime("%j")\<close>: the day of the year as three digits.\<close>

definition strftime_j :: "datetime \<Rightarrow> string" where
  "strftime_j t = zpad 3 (str_nat (yday t))"

text \<open>
  \<^verbatim>\<open>idate = f'{t.year}{t.strftime("%j")}'\<close>,
  \<^verbatim>\<open>utsec = str(t.hour * 3600 + t.minute * 60 + t.second)\<close>.
\<close>

definition glowdate :: "datetime \<Rightarrow> string \<times> string" where
  "glowdate t =
     (let idate = str_nat (year t) @ strftime_j t;
          utsec = str_nat (hour t * 3600 + minute t * 60 + second t)
      in (idate, utsec))"

section \<open>The line written to the executable by \<open>maxwellian\<close>\<close>

text \<open>
  \<open>ip\<close> is the table returned by the external index lookup
  \<open>gi.get_indices\<close>; only its columns \<open>f107s\<close>, \<open>f107\<close> and \<open>Ap\<close> are
  read. \<open>iloc\<close> is positional access, which raises \<open>IndexError\<close> beyond the
  last row.
\<close>

record 'f indices =
  f107s :: "'f list"
  f107 :: "'f list"
  Ap :: "'f list"

definition iloc :: "'a list \<Rightarrow> nat \<Rightarrow> error + 'a" where
  "iloc xs i = (if i < length xs then Inr (xs ! i) else Inl IndexError)"

text \<open>
  The \<open>input\<close> argument of \<open>subprocess.check_output\<close> in \<open>maxwellian\<close>,
  an f-string whose replacement fields are evaluated from left to right. \<open>fmt\<close>
  stands for the formatting of a float inside an f-string.
\<close>

definition maxwellian_input ::
  "('f \<Rightarrow> string) \<Rightarrow> datetime \<Rightarrow> 'f \<Rightarrow> 'f \<Rightarrow> 'f indices \<Rightarrow> 'f \<Rightarrow> 'f \<Rightarrow> error + string" where
  "maxwellian_input fmt time glat glon ip Q Echar =
     (case glowdate time of (idate, utsec) \<Rightarrow>
      (case iloc (f107s ip) 1 of Inl e \<Rightarrow> Inl e | Inr f107a \<Rightarrow>
      (case iloc (f107 ip) 1 of Inl e \<Rightarrow> Inl e | Inr f107d \<Rightarrow>
      (case iloc (f107 ip) 0 of Inl e \<Rightarrow> Inl e | Inr f107p \<Rightarrow>
      (case iloc (Ap ip) 1 of Inl e \<Rightarrow> Inl e | Inr ap \<Rightarrow>
        Inr (idate @ '' '' @ utsec @ '' '' @ fmt glat @ '' '' @ fmt glon @ '' '' @
             fmt f107a @ '' '' @ fmt f107d @ '' '' @ fmt f107p @ '' '' @ fmt ap @ '' '' @
             fmt Q @ '' '' @ fmt Echar))))))"

text \<open>\<open>line.split(" ")\<close>: the fields between single spaces.\<close>

fun split_sp_acc :: "string \<Rightarrow> string \<Rightarrow> string list" where
  "split_sp_acc cur [] = [cur]"
| "split_sp_acc cur (c # cs) =
     (if c = CHR '' '' then cur # split_sp_acc [] cs else split_sp_acc (cur @ [c]) cs)"

definition split_sp :: "string \<Rightarrow> string list" where
  "split_sp line = split_sp_acc [] line"

section \<open>Reading the captured text\<close>

subsection \<open>\<open>io.StringIO\<close>\<close>

definition newline :: char where
  "newline = CHR 0x0A"

text \<open>
  Iterating over \<open>io.StringIO(raw)\<close> yields the lines of \<open>raw\<close>, each with its
  terminating newline; a last line without newline is yielded as it is.
\<close>

fun iter_lines_acc :: "string \<Rightarrow> string \<Rightarrow> string list" where
  "iter_lines_acc cur [] = (if cur = [] then [] else [cur])"
| "iter_lines_acc cur (c # cs) =
     (if c = newline then (cur @ [c]) # iter_lines_acc [] cs
      else iter_lines_acc (cur @ [c]) cs)"

definition iter_lines :: "string \<Rightarrow> string list" where
  "iter_lines raw = iter_lines_acc [] raw"

subsection \<open>Splitting a line into fields\<close>

text \<open>
  \<open>str.split()\<close> without argument splits at runs of whitespace. These are the
  whitespace characters of Python among the first 256 code points.
\<close>

definition is_space :: "char \<Rightarrow> bool" where
  "is_space c = (of_char c \<in> {9, 10, 11, 12, 13, 28, 29, 30, 31, 32, 133, 160 :: nat})"

function split_ws :: "string \<Rightarrow> string list" where
  "split_ws [] = []"
| "split_ws (c # cs) =
     (if is_space c then split_ws cs
      else (c # takeWhile (\<lambda>x. \<not> is_space x) cs) #
           split_ws (dropWhile (\<lambda>x. \<not> is_space x) cs))"
  by pat_completeness auto
termination
  by (relation "measure length") (auto simp: less_Suc_eq_le length_dropWhile_le)

text \<open>
  numpy's \<open>LineSplitter\<close> with the defaults of \<open>genfromtxt\<close>
  (\<open>comments='#'\<close>, \<open>delimiter=None\<close>): what follows the first \<open>#\<close> is
  dropped, the rest is split at whitespace. A blank or comment-only line has no
  field.
\<close>

definition split_line :: "string \<Rightarrow> string list" where
  "split_line line = split_ws (takeWhile (\<lambda>c. c \<noteq> CHR ''#'') line)"

subsection \<open>Arrays\<close>

text \<open>
  The arrays \<open>genfromtxt\<close> can return after its final \<open>squeeze\<close>: a
  0-dimensional one, a 1-dimensional one, or a 2-dimensional one given by its
  rows.
\<close>

datatype 'v ndarray = Scalar 'v | Vec "'v list" | Mat "'v list list"

text \<open>
  \<open>np.squeeze\<close> of the array built from the collected rows, which all have as
  many entries as the first one: axes of length one disappear.
\<close>

definition squeeze :: "'v list list \<Rightarrow> 'v ndarray" where
  "squeeze rows =
     (case rows of
        [] \<Rightarrow> Vec []
      | [r] \<Rightarrow> (case r of [x] \<Rightarrow> Scalar x | _ \<Rightarrow> Vec r)
      | r # _ # _ \<Rightarrow> (if length r = 1 then Vec (map hd rows) else Mat rows))"

text \<open>\<open>a.size\<close>\<close>

fun ndsize :: "'v ndarray \<Rightarrow> nat" where
  "ndsize (Scalar x) = 1"
| "ndsize (Vec xs) = length xs"
| "ndsize (Mat rows) = length rows * length (hd rows)"

text \<open>\<open>a[:, 0]\<close>; an array of fewer than two dimensions raises \<open>IndexError\<close>.\<close>

fun col0 :: "'v ndarray \<Rightarrow> error + 'v list" where
  "col0 (Mat rows) = Inr (map hd rows)"
| "col0 _ = Inl IndexError"

text \<open>\<open>a.shape[1]\<close>, read after \<open>a[:, 0]\<close> has succeeded.\<close>

fun shape1 :: "'v ndarray \<Rightarrow> nat" where
  "shape1 (Mat rows) = length (hd rows)"
| "shape1 _ = 0"

text \<open>\<open>a[:, 1:]\<close>, as rows.\<close>

fun cols_from1 :: "'v ndarray \<Rightarrow> 'v list list" where
  "cols_from1 (Mat rows) = map tl rows"
| "cols_from1 _ = []"

text \<open>Iterating over \<open>m.T\<close>: the columns of the rectangular \<open>m\<close>.\<close>

definition columns :: "'v list list \<Rightarrow> 'v list list" where
  "columns m = map (\<lambda>j. map (\<lambda>r. r ! j) m) [0..<length (hd m)]"

text \<open>\<open>a[0, 0]\<close>\<close>

fun item00 :: "'v ndarray \<Rightarrow> error + 'v" where
  "item00 (Mat rows) = Inr (hd (hd rows))"
| "item00 _ = Inl IndexError"

text \<open>\<open>xs[0]\<close> for a 1-dimensional array.\<close>

fun item0 :: "'v list \<Rightarrow> error + 'v" where
  "item0 [] = Inl IndexError"
| "item0 (x # _) = Inr x"

subsection \<open>\<open>numpy.genfromtxt\<close>\<close>

text \<open>
  The main loop of \<open>genfromtxt\<close> over the remaining lines, with \<open>nbcols\<close>
  the number of fields of the first row. A line without field is skipped, a
  line with another number of fields is recorded as invalid, every other line is
  a row; the loop stops as soon as \<open>max_rows\<close> rows are collected and leaves the
  rest of the stream unread. The result is the rows, the field counts of the
  invalid lines, and the unread lines.
\<close>

fun collect_rows ::
  "nat \<Rightarrow> nat \<Rightarrow> string list \<Rightarrow> string list list \<Rightarrow> nat list \<Rightarrow>
   string list list \<times> nat list \<times> string list" where
  "collect_rows nbcols max_rows [] rows invalid = (rows, invalid, [])"
| "collect_rows nbcols max_rows (line # fhd) rows invalid =
     (let values = split_line line in
      if values = [] then collect_rows nbcols max_rows fhd rows invalid
      else if length values \<noteq> nbcols
        then collect_rows nbcols max_rows fhd rows (invalid @ [length values])
      else if length (rows @ [values]) = max_rows then (rows @ [values], invalid, fhd)
      else collect_rows nbcols max_rows fhd (rows @ [values]) invalid)"

text \<open>
  The reading part of \<open>genfromtxt(table, skip_header=s, max_rows=m)\<close>: skip
  \<open>s\<close> lines, skip lines until one has fields (it fixes the number of
  columns), then run the main loop from that line. An exhausted stream gives no
  row.
\<close>

definition scan_rows ::
  "nat \<Rightarrow> nat \<Rightarrow> string list \<Rightarrow> string list list \<times> nat list \<times> string list" where
  "scan_rows skip_header max_rows fhd =
     (let fhd1 = drop skip_header fhd;
          fhd2 = dropWhile (\<lambda>l. split_line l = []) fhd1;
          nbcols = (case fhd2 of [] \<Rightarrow> 0 | first_line # _ \<Rightarrow> length (split_line first_line))
      in collect_rows nbcols max_rows fhd2 [] [])"

text \<open>
  \<open>genfromtxt\<close> raises \<open>ValueError\<close> when some line was invalid; otherwise
  every field is converted by \<open>conv\<close> and the array is squeezed. \<open>conv\<close>
  stands for the converter of the default \<open>dtype=float\<close>: Python's \<open>float\<close>,
  with NaN for a field that \<open>float\<close> rejects. The second component is the
  stream after the call.
\<close>

definition genfromtxt ::
  "(string \<Rightarrow> 'v) \<Rightarrow> string list \<Rightarrow> nat \<Rightarrow> nat \<Rightarrow> error + ('v ndarray \<times> string list)" where
  "genfromtxt conv fhd skip_header max_rows =
     (case scan_rows skip_header max_rows fhd of
        (rows, invalid, rest) \<Rightarrow>
          if invalid \<noteq> [] then Inl ValueError
          else Inr (squeeze (map (map conv) rows), rest))"

section \<open>The dataset\<close>

datatype wl = WNum nat | WStr string

text \<open>
  A data variable is a profile over \<open>alt_km\<close> or an array over
  \<open>alt_km\<close> and \<open>wavelength\<close>.
\<close>

datatype 'v variable = Var1D "'v list" | Var2D "'v list list"

record 'v dataset =
  alt_km :: "'v list"
  wavelength :: "wl list option"
  data_vars :: "(string \<times> 'v variable) list"

record 'v dataarray =
  da_name :: string
  da_values :: "'v list list"
  da_alt_km :: "'v list"
  da_wavelength :: "wl list"

text \<open>A dict comprehension: a later pair with the same key replaces the value.\<close>

definition dict_of :: "(string \<times> 'a) list \<Rightarrow> (string \<times> 'a) list" where
  "dict_of ps = foldl (\<lambda>d (k, v). AList.update k v d) [] ps"

text \<open>
  \<open>xarray.Dataset(d, coords={"alt_km": alt})\<close> where every value of \<open>d\<close> is
  \<open>("alt_km", v)\<close>: a variable whose length differs from the coordinate's is
  rejected with \<open>ValueError\<close>.
\<close>

definition xr_Dataset :: "(string \<times> 'v list) list \<Rightarrow> 'v list \<Rightarrow> error + 'v dataset" where
  "xr_Dataset d alt =
     (if list_all (\<lambda>(k, v). length v = length alt) d
      then Inr \<lparr>alt_km = alt, wavelength = None, data_vars = map (\<lambda>(k, v). (k, Var1D v)) d\<rparr>
      else Inl ValueError)"

text \<open>
  \<open>xarray.DataArray(data, coords={"alt_km": alt, "wavelength": wls},
  dims=["alt_km", "wavelength"], name=n)\<close> for 2-dimensional \<open>data\<close>: a
  coordinate whose length differs from the data's size along its dimension is
  rejected with \<open>ValueError\<close>.
\<close>

definition xr_DataArray ::
  "'v list list \<Rightarrow> 'v list \<Rightarrow> wl list \<Rightarrow> string \<Rightarrow> error + 'v dataarray" where
  "xr_DataArray data alt wls n =
     (if length data = length alt \<and> list_all (\<lambda>r. length r = length wls) data
      then Inr \<lparr>da_name = n, da_values = data, da_alt_km = alt, da_wavelength = wls\<rparr>
      else Inl ValueError)"

text \<open>
  \<open>xarray.merge((iono, ver))\<close> where both operands carry the same \<open>alt_km\<close>
  coordinate, as they do in \<open>glowparse\<close>: the array is added under its name
  and brings its \<open>wavelength\<close> coordinate.
\<close>

definition xr_merge :: "'v dataset \<Rightarrow> 'v dataarray \<Rightarrow> 'v dataset" where
  "xr_merge iono ver =
     \<lparr>alt_km = alt_km iono, wavelength = Some (da_wavelength ver),
      data_vars = data_vars iono @ [(da_name ver, Var2D (da_values ver))]\<rparr>"

section \<open>\<open>glowparse\<close>\<close>

definition glow_var :: "string list" where
  "glow_var = [''Tn'', ''O'', ''N2'', ''NO'', ''NeIn'', ''NeOut'', ''ionrate'',
               ''O+'', ''O2+'', ''NO+'', ''N2D'', ''pedersen'', ''hall'']"

definition Nalt :: nat where
  "Nalt = 102"

definition wavelen :: "wl list" where
  "wavelen = [WNum 3371, WNum 4278, WNum 5200, WNum 5577, WNum 6300, WNum 7320,
              WNum 10400, WNum 3644, WNum 7774, WNum 8446, WNum 3726, WStr ''LBH'',
              WNum 1356, WNum 1493, WNum 1304]"

text \<open>
  \<open>glowparse\<close> on the stream of lines, statement by statement: the header
  read and the assertion on its size; the first block, its altitude column and
  the check of its column count; the dictionary of profiles, the dataset and the
  assertion on the number of its variables; the second block and the assertion
  on its first altitude; the emission array and the merge. Numbers enter in two
  places only, which are parameters: \<open>conv\<close> converts a field, and \<open>feq\<close>
  is \<open>==\<close> on converted values (false whenever an operand is NaN).
\<close>

definition glowparse_table ::
  "(string \<Rightarrow> 'v) \<Rightarrow> ('v \<Rightarrow> 'v \<Rightarrow> bool) \<Rightarrow> string list \<Rightarrow> error + 'v dataset" where
  "glowparse_table conv feq table =
     (case genfromtxt conv table 1 1 of Inl e \<Rightarrow> Inl e | Inr (header, table1) \<Rightarrow>
      if ndsize header \<noteq> 10 then Inl AssertionError else
      (case genfromtxt conv table1 1 Nalt of Inl e \<Rightarrow> Inl e | Inr (dat, table2) \<Rightarrow>
      (case col0 dat of Inl e \<Rightarrow> Inl e | Inr alt \<Rightarrow>
       if int (length glow_var) \<noteq> int (shape1 dat) - 1 then Inl ValueError else
      (case xr_Dataset (dict_of (zip glow_var (columns (cols_from1 dat)))) alt of
         Inl e \<Rightarrow> Inl e | Inr iono \<Rightarrow>
       if length glow_var \<noteq> length (data_vars iono) then Inl AssertionError else
      (case genfromtxt conv table2 1 Nalt of Inl e \<Rightarrow> Inl e | Inr (dat2, table3) \<Rightarrow>
      (case item00 dat2 of Inl e \<Rightarrow> Inl e | Inr a \<Rightarrow>
      (case item0 alt of Inl e \<Rightarrow> Inl e | Inr a0 \<Rightarrow>
       if \<not> feq a a0 then Inl AssertionError else
      (case xr_DataArray (cols_from1 dat2) alt wavelen ''ver'' of
         Inl e \<Rightarrow> Inl e | Inr ver \<Rightarrow> Inr (xr_merge iono ver)))))))))"

definition glowparse ::
  "(string \<Rightarrow> 'v) \<Rightarrow> ('v \<Rightarrow> 'v \<Rightarrow> bool) \<Rightarrow> string \<Rightarrow> error + 'v dataset" where
  "glowparse conv feq raw = glowparse_table conv feq (iter_lines raw)"

text \<open>\<open>iono[name]\<close>: the data variable of that name.\<close>

definition getitem :: "'v dataset \<Rightarrow> string \<Rightarrow> 'v variable option" where
  "getitem ds name = map_of (data_vars ds) name"

section \<open>Notions used to state the properties\<close>

subsection \<open>What the reader finds in a text\<close>

text \<open>
  The header row of a text: the fields of the first line after the first one
  that has any field (none if there is no such line). This is the row the first
  call of \<open>genfromtxt\<close> reads.
\<close>

definition header_row :: "string \<Rightarrow> string list" where
  "header_row raw =
     (case dropWhile (\<lambda>l. split_line l = []) (drop 1 (iter_lines raw)) of
        [] \<Rightarrow> []
      | l # _ \<Rightarrow> split_line l)"

text \<open>The stream after the header has been read.\<close>

definition after_header :: "string \<Rightarrow> string list" where
  "after_header raw = snd (snd (scan_rows 1 1 (iter_lines raw)))"

text \<open>
  The first data block: the rows of fields the second call of \<open>genfromtxt\<close>
  collects, the field counts of the lines it finds invalid, and the stream it
  leaves.
\<close>

definition first_block :: "string \<Rightarrow> string list list" where
  "first_block raw = fst (scan_rows 1 Nalt (after_header raw))"

definition first_block_invalid :: "string \<Rightarrow> nat list" where
  "first_block_invalid raw = fst (snd (scan_rows 1 Nalt (after_header raw)))"

definition after_first_block :: "string \<Rightarrow> string list" where
  "after_first_block raw = snd (snd (scan_rows 1 Nalt (after_header raw)))"

text \<open>The second data block: the rows the third call collects.\<close>

definition second_block :: "string \<Rightarrow> string list list" where
  "second_block raw = fst (scan_rows 1 Nalt (after_first_block raw))"

definition second_block_invalid :: "string \<Rightarrow> nat list" where
  "second_block_invalid raw = fst (snd (scan_rows 1 Nalt (after_first_block raw)))"

definition after_second_block :: "string \<Rightarrow> string list" where
  "after_second_block raw = snd (snd (scan_rows 1 Nalt (after_first_block raw)))"

text \<open>The number of columns of a block, altitude column included.\<close>

definition ncols :: "string list list \<Rightarrow> nat" where
  "ncols rows = (case rows of [] \<Rightarrow> 0 | r # _ \<Rightarrow> length r)"

subsection \<open>What a dataset contains\<close>

text \<open>
  The dataset \<open>glowparse\<close> returns for a first block \<open>rows1\<close> and a second
  block \<open>rows2\<close>, both given as rows of fields.
\<close>

definition assemble :: "(string \<Rightarrow> 'v) \<Rightarrow> string list list \<Rightarrow> string list list \<Rightarrow> 'v dataset" where
  "assemble conv rows1 rows2 =
     \<lparr>alt_km = map (\<lambda>r. conv (hd r)) rows1,
      wavelength = Some wavelen,
      data_vars =
        zip glow_var (map Var1D (columns (map (\<lambda>r. map conv (tl r)) rows1))) @
        [(''ver'', Var2D (map (\<lambda>r. map conv (tl r)) rows2))]\<rparr>"

text \<open>The 1-dimensional and the 2-dimensional data variables of a dataset.\<close>

definition profiles :: "'v dataset \<Rightarrow> (string \<times> 'v list) list" where
  "profiles ds =
     concat (map (\<lambda>(k, v). case v of Var1D p \<Rightarrow> [(k, p)] | Var2D m \<Rightarrow> []) (data_vars ds))"

definition arrays :: "'v dataset \<Rightarrow> (string \<times> 'v list list) list" where
  "arrays ds =
     concat (map (\<lambda>(k, v). case v of Var1D p \<Rightarrow> [] | Var2D m \<Rightarrow> [(k, m)]) (data_vars ds))"

subsection \<open>Concrete texts\<close>

text \<open>A text given by its lines: every line is terminated by a newline.\<close>

definition terminated :: "string \<Rightarrow> string" where
  "terminated l = l @ [newline]"

definition unlines :: "string list \<Rightarrow> string" where
  "unlines ls = concat (map terminated ls)"

text \<open>
  A converter and an equality for the concrete texts below, whose data fields
  are strings of decimal digits: such a field is read as its number, as
  \<open>float\<close> reads it; \<open>None\<close> is NaN, which is what every other field gives
  here, and NaN equals nothing.
\<close>

definition digits_conv :: "string \<Rightarrow> nat option" where
  "digits_conv s =
     (if s \<noteq> [] \<and> list_all (\<lambda>c. c \<in> set ''0123456789'') s then Some (int_of_digits s)
      else None)"

definition nan_eq :: "nat option \<Rightarrow> nat option \<Rightarrow> bool" where
  "nan_eq a b = (a \<noteq> None \<and> a = b)"

definition echo_line :: string where
  "echo_line = ''glowbasic''"

definition header_line :: string where
  "header_line = ''2015347 36000 65 148 70 71 72 4 1 2000''"

definition title_line1 :: string where
  "title_line1 = ''Z Tn O N2 NO Ne(in) Ne(out) Ionrate O+ O2+ NO+ N(2D) Pederson Hall''"

definition title_line2 :: string where
  "title_line2 = ''Z 3371 4278 5200 5577 6300 7320 10400 3644 7774 8446 3726 LBH 1356 1493 1304''"

text \<open>
  Row \<open>i\<close> of a first block whose altitudes start at \<open>z\<close>: the altitude,
  a temperature and 12 more fields. \<open>narrow_row\<close> lacks the last field.
\<close>

definition profile_row :: "nat \<Rightarrow> nat \<Rightarrow> string" where
  "profile_row z i =
     str_nat (z + i) @ '' '' @ str_nat (200 + i) @ '' 31 47 12 95 60 7 28 64 53 19 76 88''"

definition narrow_row :: "nat \<Rightarrow> nat \<Rightarrow> string" where
  "narrow_row z i =
     str_nat (z + i) @ '' '' @ str_nat (200 + i) @ '' 31 47 12 95 60 7 28 64 53 19 76''"

text \<open>Row \<open>i\<close> of a second block: the altitude and 15 emission rates.\<close>

definition ver_row :: "nat \<Rightarrow> nat \<Rightarrow> string" where
  "ver_row z i = str_nat (z + i) @ '' 15 42 8 23 4 16 77 35 61 59 26 90 11 38 6''"

text \<open>A header row of three fields.\<close>

definition short_header_line :: string where
  "short_header_line = ''2015347 36000 65''"

text \<open>
  A text in the layout the executable prints: a first line, the header row, a
  title line and the rows of the first block, a title line and the rows of the
  second block.
\<close>

definition glow_text :: "string \<Rightarrow> string list \<Rightarrow> string list \<Rightarrow> string" where
  "glow_text hdr rows1 rows2 =
     unlines (echo_line # hdr # title_line1 # rows1 @ title_line2 # rows2)"

section \<open>Facts about decimal strings\<close>

lemma length_str_nat_lt10: "n < 10 \<Longrightarrow> length (str_nat n) = 1"
  by (simp add: str_nat.simps)

lemma length_str_nat_step: "10 \<le> n \<Longrightarrow> length (str_nat n) = Suc (length (str_nat (n div 10)))"
  by (subst str_nat.simps) simp

lemma length_str_nat_le3: "n < 1000 \<Longrightarrow> length (str_nat n) \<le> 3"
proof -
  assume n: "n < 1000"
  have a: "length (str_nat (n div 10 div 10)) = 1"
    using n by (intro length_str_nat_lt10) simp
  show ?thesis
  proof (cases "n < 10")
    case True
    then show ?thesis by (simp add: length_str_nat_lt10)
  next
    case False
    then have s1: "length (str_nat n) = Suc (length (str_nat (n div 10)))"
      by (simp add: length_str_nat_step)
    show ?thesis
    proof (cases "n div 10 < 10")
      case True
      then show ?thesis using s1 by (simp add: length_str_nat_lt10)
    next
      case False
      then have "length (str_nat (n div 10)) = Suc (length (str_nat (n div 10 div 10)))"
        by (simp add: length_str_nat_step)
      then show ?thesis using s1 a by simp
    qed
  qed
qed

lemma length_str_nat_4: "1000 \<le> n \<Longrightarrow> n \<le> 9999 \<Longrightarrow> length (str_nat n) = 4"
proof -
  assume n: "1000 \<le> n" "n \<le> 9999"
  have "length (str_nat (n div 10 div 10 div 10)) = 1"
    using n by (intro length_str_nat_lt10) simp
  moreover have "length (str_nat (n div 10 div 10)) = Suc (length (str_nat (n div 10 div 10 div 10)))"
    using n by (intro length_str_nat_step) simp
  moreover have "length (str_nat (n div 10)) = Suc (length (str_nat (n div 10 div 10)))"
    using n by (intro length_str_nat_step) simp
  moreover have "length (str_nat n) = Suc (length (str_nat (n div 10)))"
    using n by (intro length_str_nat_step) simp
  ultimately show ?thesis by simp
qed

lemma length_zpad: "length s \<le> w \<Longrightarrow> length (zpad w s) = w"
  by (simp add: zpad_def)

lemma digit_val_digit_char: "d < 10 \<Longrightarrow> digit_val (digit_char d) = d"
proof -
  assume "d < 10"
  then have "d \<in> {0, 1, 2, 3, 4, 5, 6, 7, 8, 9}" by auto
  then show ?thesis
    by (auto simp: digit_val_def digit_char_def)
qed

lemma int_of_digits_snoc: "int_of_digits (s @ [c]) = 10 * int_of_digits s + digit_val c"
  by (simp add: int_of_digits_def)

lemma int_of_digits_str_nat: "int_of_digits (str_nat n) = n"
proof (induction n rule: str_nat.induct)
  case (1 n)
  show ?case
  proof (cases "n < 10")
    case True
    then show ?thesis
      by (simp add: str_nat.simps int_of_digits_def digit_val_digit_char)
  next
    case False
    then have "int_of_digits (str_nat n) = 10 * (n div 10) + n mod 10"
      using "1.IH" by (subst str_nat.simps) (simp add: int_of_digits_snoc digit_val_digit_char)
    then show ?thesis by simp
  qed
qed

section \<open>Facts about the day of the year\<close>

lemma month_cases:
  "1 \<le> m \<Longrightarrow> m \<le> 12 \<Longrightarrow> m \<in> {1, 2, 3, 4, 5, 6, 7, 8, 9, 10, 11, 12::nat}"
  by (simp only: insert_iff empty_iff) arith

lemma yday_bounds: "valid_datetime t \<Longrightarrow> 1 \<le> yday t \<and> yday t \<le> 366"
proof -
  assume v: "valid_datetime t"
  then have m: "month t \<in> {1, 2, 3, 4, 5, 6, 7, 8, 9, 10, 11, 12}"
    by (intro month_cases) (simp_all add: valid_datetime_def)
  have d: "1 \<le> day t" "day t \<le> days_in_month (year t) (month t)"
    using v by (simp_all add: valid_datetime_def)
  from m d show ?thesis
    by (auto simp: yday_def days_before_month_def days_in_month_def DAYS_IN_MONTH_def
             split: if_splits)
qed

lemma length_strftime_j: "valid_datetime t \<Longrightarrow> length (strftime_j t) = 3"
proof -
  assume "valid_datetime t"
  then have "yday t < 1000" using yday_bounds [of t] by simp
  then show ?thesis
    unfolding strftime_j_def by (intro length_zpad length_str_nat_le3)
qed

lemma utsec_bound:
  "valid_datetime t \<Longrightarrow> hour t * 3600 + minute t * 60 + second t \<le> 86399"
  by (simp add: valid_datetime_def)

section \<open>Facts about space-separated fields\<close>

lemma digit_char_in_digits: "d < 10 \<Longrightarrow> digit_char d \<in> set ''0123456789''"
  unfolding digit_char_def by (rule nth_mem) simp

lemma set_str_nat: "set (str_nat n) \<subseteq> set ''0123456789''"
proof (induction n rule: str_nat.induct)
  case (1 n)
  show ?case
  proof (cases "n < 10")
    case True
    then show ?thesis using digit_char_in_digits [of n] by (subst str_nat.simps) simp
  next
    case False
    have "digit_char (n mod 10) \<in> set ''0123456789''"
      by (rule digit_char_in_digits) simp
    with False "1.IH" show ?thesis by (subst str_nat.simps) simp
  qed
qed

lemma no_space_str_nat: "CHR '' '' \<notin> set (str_nat n)"
  using set_str_nat [of n] by auto

lemma no_space_zpad: "CHR '' '' \<notin> set s \<Longrightarrow> CHR '' '' \<notin> set (zpad w s)"
  by (auto simp: zpad_def)

lemma no_space_glowdate:
  "CHR '' '' \<notin> set (fst (glowdate t))" "CHR '' '' \<notin> set (snd (glowdate t))"
  by (simp_all add: glowdate_def Let_def strftime_j_def no_space_str_nat no_space_zpad)

lemma split_sp_acc_field:
  "CHR '' '' \<notin> set a \<Longrightarrow>
   split_sp_acc cur (a @ CHR '' '' # rest) = (cur @ a) # split_sp_acc [] rest"
  by (induction a arbitrary: cur) auto

lemma split_sp_acc_last: "CHR '' '' \<notin> set a \<Longrightarrow> split_sp_acc cur a = [cur @ a]"
  by (induction a arbitrary: cur) auto

lemma split_sp_field:
  "CHR '' '' \<notin> set a \<Longrightarrow> split_sp (a @ CHR '' '' # rest) = a # split_sp rest"
  using split_sp_acc_field [of a "[]" rest] by (simp add: split_sp_def)

lemma split_sp_last: "CHR '' '' \<notin> set a \<Longrightarrow> split_sp a = [a]"
  using split_sp_acc_last [of a "[]"] by (simp add: split_sp_def)

lemma int_of_digits_zpad: "int_of_digits (zpad w s) = int_of_digits s"
proof -
  have "foldl (\<lambda>a c. 10 * a + digit_val c) 0 (replicate k (CHR ''0'')) = 0" for k
    by (induction k) (simp_all add: digit_val_def)
  then show ?thesis by (simp add: int_of_digits_def zpad_def)
qed

lemma zpad3_single: "zpad 3 [c] = [CHR ''0'', CHR ''0'', c]"
  by (simp add: zpad_def numeral_2_eq_2)

lemma glowdate_new_year:
  "month t = 1 \<Longrightarrow> day t = 1 \<Longrightarrow> fst (glowdate t) = str_nat (year t) @ ''001''"
  by (simp add: glowdate_def Let_def strftime_j_def yday_def days_before_month_def
        str_nat.simps zpad3_single digit_char_def)

section \<open>Facts about the reader\<close>

lemma collect_rows_good:
  "\<forall>r\<in>set rs. length (split_line r) = n \<Longrightarrow> 0 < n \<Longrightarrow> length rows + length rs < m \<Longrightarrow>
   collect_rows n m (rs @ rest) rows bad = collect_rows n m rest (rows @ map split_line rs) bad"
proof (induction rs arbitrary: rows)
  case Nil
  then show ?case by simp
next
  case (Cons r rs)
  from Cons.prems have r: "split_line r \<noteq> []" "length (split_line r) = n" by auto
  from Cons.prems have m: "Suc (length rows) \<noteq> m" by simp
  have "collect_rows n m ((r # rs) @ rest) rows bad
          = collect_rows n m (rs @ rest) (rows @ [split_line r]) bad"
    using r m by (simp add: Let_def)
  also have "\<dots> = collect_rows n m rest ((rows @ [split_line r]) @ map split_line rs) bad"
    using Cons.prems by (intro Cons.IH) simp_all
  finally show ?case by simp
qed

lemma collect_rows_last:
  "length (split_line r) = n \<Longrightarrow> 0 < n \<Longrightarrow> Suc (length rows) = m \<Longrightarrow>
   collect_rows n m (r # rest) rows bad = (rows @ [split_line r], bad, rest)"
  by (auto simp: Let_def)

lemma collect_rows_block:
  assumes "\<forall>r\<in>set rs. length (split_line r) = n" "0 < n" "length rows + length rs = m"
    "rs \<noteq> []"
  shows "collect_rows n m (rs @ rest) rows bad = (rows @ map split_line rs, bad, rest)"
proof -
  from assms(4) have rs: "rs = butlast rs @ [last rs]" by simp
  have l: "length (split_line (last rs)) = n" using assms(1,4) by simp
  have b: "\<forall>r\<in>set (butlast rs). length (split_line r) = n"
    using assms(1) by (auto dest: in_set_butlastD)
  have len: "length rows + length (butlast rs) < m" using assms(3,4) by (cases rs) auto
  have "collect_rows n m (rs @ rest) rows bad
          = collect_rows n m (butlast rs @ (last rs # rest)) rows bad"
    by (subst rs) simp
  also have "\<dots> = collect_rows n m (last rs # rest) (rows @ map split_line (butlast rs)) bad"
    using b assms(2) len by (rule collect_rows_good)
  also have "\<dots> = ((rows @ map split_line (butlast rs)) @ [split_line (last rs)], bad, rest)"
    using l assms(2) assms(3,4) by (intro collect_rows_last) (cases rs; auto)+
  also have "(rows @ map split_line (butlast rs)) @ [split_line (last rs)] = rows @ map split_line rs"
    by (subst (3) rs) (simp del: append_butlast_last_id)
  finally show ?thesis .
qed

lemma collect_rows_bad:
  "\<forall>l\<in>set ls. split_line l \<noteq> [] \<and> length (split_line l) \<noteq> n \<Longrightarrow>
   collect_rows n m ls rows bad = (rows, bad @ map (\<lambda>l. length (split_line l)) ls, [])"
  by (induction ls arbitrary: bad) (auto simp: Let_def)

lemma collect_rows_inv:
  "collect_rows n m ls rows bad = (rows', bad', rest) \<Longrightarrow>
   (\<exists>extra. rows' = rows @ extra \<and> (\<forall>r\<in>set extra. r \<noteq> [] \<and> length r = n)) \<and>
   (length rows < m \<longrightarrow> length rows' \<le> m \<and> (length rows' < m \<longrightarrow> rest = []))"
proof (induction ls arbitrary: rows bad)
  case Nil
  then show ?case by auto
next
  case (Cons l ls)
  show ?case
  proof (cases "split_line l = []")
    case True
    with Cons.prems have "collect_rows n m ls rows bad = (rows', bad', rest)" by simp
    then show ?thesis by (rule Cons.IH)
  next
    case ne: False
    show ?thesis
    proof (cases "length (split_line l) \<noteq> n")
      case True
      with ne Cons.prems
      have "collect_rows n m ls rows (bad @ [length (split_line l)]) = (rows', bad', rest)"
        by (simp add: Let_def)
      then show ?thesis by (rule Cons.IH)
    next
      case eq: False
      show ?thesis
      proof (cases "Suc (length rows) = m")
        case True
        with ne eq Cons.prems have "rows' = rows @ [split_line l]" "rest = ls"
          by (simp_all add: Let_def)
        with ne eq True show ?thesis by auto
      next
        case False
        with ne eq Cons.prems
        have c: "collect_rows n m ls (rows @ [split_line l]) bad = (rows', bad', rest)"
          by (simp add: Let_def)
        from Cons.IH [OF c] ne eq False show ?thesis by auto
      qed
    qed
  qed
qed

lemma case_sum_Inr_iff:
  "((case x of Inl e \<Rightarrow> Inl e | Inr v \<Rightarrow> f v) = Inr r) = (\<exists>v. x = Inr v \<and> f v = Inr r)"
  by (cases x) auto

lemma if_Inl_Inr_iff: "((if c then Inl e else y) = Inr r) = (\<not> c \<and> y = Inr r)"
  by simp

lemma scan_rows_props:
  assumes "scan_rows s m fhd = (rows, bad, rest)"
  shows "(\<forall>r\<in>set rows. r \<noteq> [] \<and> length r = length (hd rows))"
    and "0 < m \<Longrightarrow> length rows \<le> m"
    and "0 < m \<Longrightarrow> length rows < m \<Longrightarrow> rest = []"
proof -
  define fhd2 where "fhd2 = dropWhile (\<lambda>l. split_line l = []) (drop s fhd)"
  define n where "n = (case fhd2 of [] \<Rightarrow> 0 | l # _ \<Rightarrow> length (split_line l))"
  have c: "collect_rows n m fhd2 [] [] = (rows, bad, rest)"
    using assms by (simp add: scan_rows_def Let_def fhd2_def n_def)
  from collect_rows_inv [OF c]
  have a: "\<forall>r\<in>set rows. r \<noteq> [] \<and> length r = n"
    and b: "0 < m \<longrightarrow> length rows \<le> m \<and> (length rows < m \<longrightarrow> rest = [])"
    by auto
  from a show "\<forall>r\<in>set rows. r \<noteq> [] \<and> length r = length (hd rows)"
    by (cases rows) auto
  from b show "0 < m \<Longrightarrow> length rows \<le> m" by simp
  from b show "0 < m \<Longrightarrow> length rows < m \<Longrightarrow> rest = []" by simp
qed

lemma scan_rows_Nil: "scan_rows s m [] = ([], [], [])"
  by (simp add: scan_rows_def)

lemma scan_rows_header:
  "scan_rows s 1 fhd =
     (case dropWhile (\<lambda>l. split_line l = []) (drop s fhd) of
        [] \<Rightarrow> ([], [], [])
      | l # rest \<Rightarrow> ([split_line l], [], rest))"
proof (cases "dropWhile (\<lambda>l. split_line l = []) (drop s fhd)")
  case Nil
  show ?thesis unfolding scan_rows_def Let_def Nil by simp
next
  case (Cons l rest)
  then have ne: "split_line l \<noteq> []"
    using hd_dropWhile [of "\<lambda>l. split_line l = []" "drop s fhd"] by auto
  show ?thesis unfolding scan_rows_def Let_def Cons using ne by (simp add: Let_def)
qed

lemma scan_rows_single:
  assumes "scan_rows s 1 fhd = (h, bad, rest)"
  shows "h = [] \<or> (\<exists>hrow. h = [hrow])"
proof (cases "dropWhile (\<lambda>l. split_line l = []) (drop s fhd)")
  case Nil
  from assms show ?thesis unfolding scan_rows_header Nil by simp
next
  case (Cons l ls)
  from assms show ?thesis unfolding scan_rows_header Cons by auto
qed

lemma genfromtxt_scan:
  "scan_rows s m fhd = (rows, [], rest) \<Longrightarrow>
   genfromtxt conv fhd s m = Inr (squeeze (map (map conv) rows), rest)"
  by (simp add: genfromtxt_def)

lemma ndsize_squeeze_single: "ndsize (squeeze [map conv vs]) = length vs"
proof (cases vs)
  case Nil
  then show ?thesis by (simp add: squeeze_def)
next
  case (Cons v ws)
  then show ?thesis by (cases ws) (simp_all add: squeeze_def)
qed

lemma squeeze_Mat_iff:
  "(squeeze rows = Mat m) = (m = rows \<and> 2 \<le> length rows \<and> length (hd rows) \<noteq> 1)"
proof (cases rows)
  case Nil
  then show ?thesis by (simp add: squeeze_def)
next
  case (Cons r rs)
  note outer = Cons
  show ?thesis
  proof (cases rs)
    case Nil
    with outer show ?thesis by (auto simp: squeeze_def split: list.splits)
  next
    case (Cons r' rs')
    with outer show ?thesis by (auto simp: squeeze_def)
  qed
qed

lemma col0_Inr_iff: "(col0 a = Inr alt) = (\<exists>rows. a = Mat rows \<and> alt = map hd rows)"
  by (cases a) auto

lemma item00_Inr_iff: "(item00 a = Inr x) = (\<exists>rows. a = Mat rows \<and> x = hd (hd rows))"
  by (cases a) auto

lemma item0_Inr_iff: "(item0 xs = Inr x) = (\<exists>ys. xs = x # ys)"
  by (cases xs) auto

lemma genfromtxt_Inr_iff:
  "(genfromtxt conv fhd s m = Inr (a, rest)) =
   (\<exists>rows. scan_rows s m fhd = (rows, [], rest) \<and> a = squeeze (map (map conv) rows))"
  by (cases "scan_rows s m fhd") (auto simp: genfromtxt_def)

lemma update_fresh: "k \<notin> fst ` set d \<Longrightarrow> AList.update k v d = d @ [(k, v)]"
  by (induction d) auto

lemma foldl_update_distinct:
  "distinct (map fst (d @ ps)) \<Longrightarrow> foldl (\<lambda>d (k, v). AList.update k v d) d ps = d @ ps"
proof (induction ps arbitrary: d)
  case Nil
  then show ?case by simp
next
  case (Cons p ps)
  obtain k v where p: "p = (k, v)" by (cases p)
  from Cons.prems p have "k \<notin> fst ` set d" by auto
  then have u: "AList.update k v d = d @ [(k, v)]" by (rule update_fresh)
  have "foldl (\<lambda>d (k, v). AList.update k v d) (d @ [(k, v)]) ps = (d @ [(k, v)]) @ ps"
    using Cons.prems p by (intro Cons.IH) simp
  with u p show ?case by simp
qed

lemma dict_of_distinct: "distinct (map fst ps) \<Longrightarrow> dict_of ps = ps"
  using foldl_update_distinct [of "[]" ps] by (simp add: dict_of_def)

lemma distinct_glow_var: "distinct glow_var"
  by (simp add: glow_var_def)

lemma length_glow_var: "length glow_var = 13"
  by (simp add: glow_var_def)

lemma length_wavelen: "length wavelen = 15"
  by (simp add: wavelen_def)

lemma dict_of_zip_glow_var: "dict_of (zip glow_var cs) = zip glow_var cs"
proof -
  have "distinct (map fst (zip glow_var cs))"
    using distinct_glow_var by (simp add: map_fst_zip_take distinct_take)
  then show ?thesis by (rule dict_of_distinct)
qed

lemma length_columns: "length (columns m) = length (hd m)"
  by (simp add: columns_def)

lemma columns_lengths: "\<forall>c\<in>set (columns m). length c = length m"
  by (auto simp: columns_def)

lemma xr_Dataset_columns:
  assumes "length alt = length m"
  shows "xr_Dataset (zip ks (columns m)) alt =
     Inr \<lparr>alt_km = alt, wavelength = None, data_vars = zip ks (map Var1D (columns m))\<rparr>"
proof -
  have "list_all (\<lambda>(k, v). length v = length alt) (zip ks (columns m))"
    using columns_lengths [of m] assms by (auto simp: list_all_iff dest: set_zip_rightD)
  moreover have "map (\<lambda>(k, v). (k, Var1D v)) (zip ks (columns m)) = zip ks (map Var1D (columns m))"
    by (simp add: zip_map2)
  ultimately show ?thesis by (simp add: xr_Dataset_def)
qed

lemma map_hd_conv:
  "\<forall>r\<in>set rows. r \<noteq> [] \<Longrightarrow> map hd (map (map conv) rows) = map (\<lambda>r. conv (hd r)) rows"
  by (induction rows) (auto simp: hd_map)

lemma map_tl_conv: "map tl (map (map conv) rows) = map (\<lambda>r. map conv (tl r)) rows"
  by (simp add: map_tl)

lemma squeeze_conv_Mat:
  assumes "2 \<le> length rows" "length (hd rows) \<noteq> 1"
  shows "squeeze (map (map conv) rows) = Mat (map (map conv) rows)"
proof -
  from assms(1) have "rows \<noteq> []" by auto
  then have "hd (map (map conv) rows) = map conv (hd rows)" by (simp add: hd_map)
  with assms show ?thesis by (simp add: squeeze_Mat_iff)
qed

lemma squeeze_conv_MatD:
  assumes "squeeze (map (map conv) rows) = Mat m"
  shows "m = map (map conv) rows" "2 \<le> length rows" "length (hd rows) \<noteq> 1"
proof -
  from assms show m: "m = map (map conv) rows" and l: "2 \<le> length rows"
    by (simp_all add: squeeze_Mat_iff)
  from l have "rows \<noteq> []" by auto
  then have "hd (map (map conv) rows) = map conv (hd rows)" by (simp add: hd_map)
  with assms show "length (hd rows) \<noteq> 1" by (simp add: squeeze_Mat_iff)
qed

text \<open>What the profile stage of glowparse computes from a well-shaped first block.\<close>

lemma profiles_ok:
  assumes len: "2 \<le> length r1" and cols: "\<forall>r\<in>set r1. length r = 14"
  shows "col0 (Mat (map (map conv) r1)) = Inr (map (\<lambda>r. conv (hd r)) r1)"
    and "shape1 (Mat (map (map conv) r1)) = 14"
    and "xr_Dataset (dict_of (zip glow_var (columns (cols_from1 (Mat (map (map conv) r1))))))
           (map (\<lambda>r. conv (hd r)) r1) =
         Inr \<lparr>alt_km = map (\<lambda>r. conv (hd r)) r1, wavelength = None,
              data_vars = zip glow_var (map Var1D (columns (map (\<lambda>r. map conv (tl r)) r1)))\<rparr>"
    and "length (zip glow_var (map Var1D (columns (map (\<lambda>r. map conv (tl r)) r1)))) = 13"
proof -
  from len have ne: "r1 \<noteq> []" by auto
  from cols have ne': "\<forall>r\<in>set r1. r \<noteq> []" by auto
  from ne cols have h: "length (hd r1) = 14" by simp
  show "col0 (Mat (map (map conv) r1)) = Inr (map (\<lambda>r. conv (hd r)) r1)"
    using ne' by (auto simp: hd_map)
  show "shape1 (Mat (map (map conv) r1)) = 14"
    using ne h by (simp add: hd_map)
  have "xr_Dataset (zip glow_var (columns (map (\<lambda>r. map conv (tl r)) r1)))
          (map (\<lambda>r. conv (hd r)) r1) =
        Inr \<lparr>alt_km = map (\<lambda>r. conv (hd r)) r1, wavelength = None,
             data_vars = zip glow_var (map Var1D (columns (map (\<lambda>r. map conv (tl r)) r1)))\<rparr>"
    by (rule xr_Dataset_columns) simp
  then show "xr_Dataset (dict_of (zip glow_var (columns (cols_from1 (Mat (map (map conv) r1))))))
           (map (\<lambda>r. conv (hd r)) r1) =
         Inr \<lparr>alt_km = map (\<lambda>r. conv (hd r)) r1, wavelength = None,
              data_vars = zip glow_var (map Var1D (columns (map (\<lambda>r. map conv (tl r)) r1)))\<rparr>"
    by (simp only: dict_of_zip_glow_var cols_from1.simps map_tl_conv)
  have "length (columns (map (\<lambda>r. map conv (tl r)) r1)) = 13"
    using ne h by (simp add: length_columns hd_map)
  then show "length (zip glow_var (map Var1D (columns (map (\<lambda>r. map conv (tl r)) r1)))) = 13"
    by (simp add: length_glow_var)
qed

section \<open>When \<open>glowparse\<close> succeeds\<close>

lemma glowparse_table_shaped:
  assumes h: "scan_rows 1 1 tbl = ([hrow], [], t1)" "length hrow = 10"
    and b1: "scan_rows 1 Nalt t1 = (r1, [], t2)" "2 \<le> length r1" "\<forall>r\<in>set r1. length r = 14"
    and b2: "scan_rows 1 Nalt t2 = (r2, [], t3)" "length r2 = length r1"
      "\<forall>r\<in>set r2. length r = 16"
  shows "glowparse_table conv feq tbl =
    (if feq (conv (hd (hd r2))) (conv (hd (hd r1))) then Inr (assemble conv r1 r2)
     else Inl AssertionError)"
proof -
  let ?alt = "map (\<lambda>r. conv (hd r)) r1"
  let ?iono = "\<lparr>alt_km = ?alt, wavelength = None,
     data_vars = zip glow_var (map Var1D (columns (map (\<lambda>r. map conv (tl r)) r1)))\<rparr>"
  let ?ver = "\<lparr>da_name = ''ver'', da_values = map (\<lambda>r. map conv (tl r)) r2,
     da_alt_km = ?alt, da_wavelength = wavelen\<rparr>"
  from b1(2) have ne1: "r1 \<noteq> []" by auto
  from b1(2) b2(2) have ne2: "r2 \<noteq> []" and len2: "2 \<le> length r2" by auto
  from ne1 b1(3) have h1: "length (hd r1) = 14" by simp
  from ne2 b2(3) have h2: "length (hd r2) = 16" by simp
  have g1: "genfromtxt conv tbl 1 1 = Inr (squeeze (map (map conv) [hrow]), t1)"
    using h(1) by (rule genfromtxt_scan)
  have s1: "(ndsize (squeeze (map (map conv) [hrow])) \<noteq> 10) = False"
    using h(2) ndsize_squeeze_single [of conv hrow] by simp
  have sq1: "squeeze (map (map conv) r1) = Mat (map (map conv) r1)"
    using b1(2) h1 by (intro squeeze_conv_Mat) simp_all
  have g2: "genfromtxt conv t1 1 Nalt = Inr (Mat (map (map conv) r1), t2)"
    using genfromtxt_scan [OF b1(1), of conv] by (simp only: sq1)
  note p = profiles_ok [OF b1(2) b1(3), of conv]
  have c1: "(int (length glow_var) \<noteq> int (shape1 (Mat (map (map conv) r1))) - 1) = False"
    unfolding p(2) length_glow_var by simp
  have c2: "(length glow_var \<noteq> length (data_vars ?iono)) = False"
    using p(4) by (simp add: length_glow_var)
  have sq2: "squeeze (map (map conv) r2) = Mat (map (map conv) r2)"
    using len2 h2 by (intro squeeze_conv_Mat) simp_all
  have g3: "genfromtxt conv t2 1 Nalt = Inr (Mat (map (map conv) r2), t3)"
    using genfromtxt_scan [OF b2(1), of conv] by (simp only: sq2)
  have i00: "item00 (Mat (map (map conv) r2)) = Inr (conv (hd (hd r2)))"
  proof -
    from h2 have "hd r2 \<noteq> []" by auto
    with ne2 show ?thesis by (simp add: hd_map)
  qed
  have i0: "item0 ?alt = Inr (conv (hd (hd r1)))"
    using ne1 by (cases r1) simp_all
  have "list_all (\<lambda>r. length r = length wavelen) (map (\<lambda>r. map conv (tl r)) r2)"
    using b2(3) by (simp add: list_all_iff length_wavelen)
  then have da: "xr_DataArray (cols_from1 (Mat (map (map conv) r2))) ?alt wavelen ''ver'' = Inr ?ver"
    using b2(2) unfolding cols_from1.simps map_tl_conv by (simp add: xr_DataArray_def)
  have m: "xr_merge ?iono ?ver = assemble conv r1 r2"
    by (simp add: xr_merge_def assemble_def)
  show ?thesis
  proof (cases "feq (conv (hd (hd r2))) (conv (hd (hd r1)))")
    case True
    then have c3: "(\<not> feq (conv (hd (hd r2))) (conv (hd (hd r1)))) = False" by simp
    show ?thesis
      unfolding glowparse_table_def
      by (simp only: g1 g2 g3 s1 c1 c2 c3 p(1) p(3) i00 i0 da m sum.case prod.case if_False
            True if_True not_True_eq_False)
  next
    case False
    then have c3: "(\<not> feq (conv (hd (hd r2))) (conv (hd (hd r1)))) = True" by simp
    show ?thesis
      unfolding glowparse_table_def
      by (simp only: g1 g2 g3 s1 c1 c2 c3 p(1) p(3) i00 i0 sum.case prod.case if_False
            False if_True not_False_eq_True)
  qed
qed

lemma glowparse_table_InrD:
  assumes "glowparse_table conv feq tbl = Inr ds"
  obtains hrow t1 r1 t2 r2 t3 where
    "scan_rows 1 1 tbl = ([hrow], [], t1)" "length hrow = 10"
    "scan_rows 1 Nalt t1 = (r1, [], t2)" "length r1 = 102" "\<forall>r\<in>set r1. length r = 14"
    "scan_rows 1 Nalt t2 = (r2, [], t3)" "length r2 = 102" "\<forall>r\<in>set r2. length r = 16"
    "feq (conv (hd (hd r2))) (conv (hd (hd r1)))" "ds = assemble conv r1 r2"
proof -
  from assms obtain header t1 dat t2 alt iono dat2 t3 a a0 ver where
    g1: "genfromtxt conv tbl 1 1 = Inr (header, t1)" and s1: "ndsize header = 10" and
    g2: "genfromtxt conv t1 1 Nalt = Inr (dat, t2)" and c0: "col0 dat = Inr alt" and
    c1: "int (length glow_var) = int (shape1 dat) - 1" and
    g3: "genfromtxt conv t2 1 Nalt = Inr (dat2, t3)" and i00: "item00 dat2 = Inr a" and
    i0: "item0 alt = Inr a0" and fe: "feq a a0" and
    da: "xr_DataArray (cols_from1 dat2) alt wavelen ''ver'' = Inr ver"
    unfolding glowparse_table_def
    by (auto simp: case_sum_Inr_iff if_Inl_Inr_iff)
  from g1 obtain h where sh: "scan_rows 1 1 tbl = (h, [], t1)"
    and hd: "header = squeeze (map (map conv) h)"
    by (auto simp: genfromtxt_Inr_iff)
  have "\<exists>hrow. h = [hrow]"
    using scan_rows_single [OF sh] hd s1 by (auto simp: squeeze_def)
  then obtain hrow where hrow: "h = [hrow]" ..
  with hd s1 have lh: "length hrow = 10"
    using ndsize_squeeze_single [of conv hrow] by simp
  from g2 obtain r1 where s2: "scan_rows 1 Nalt t1 = (r1, [], t2)"
    and d1: "dat = squeeze (map (map conv) r1)"
    by (auto simp: genfromtxt_Inr_iff)
  from c0 obtain m1 where m1: "dat = Mat m1" and alt: "alt = map hd m1"
    by (auto simp: col0_Inr_iff)
  from d1 m1 have m1': "m1 = map (map conv) r1" and l1: "2 \<le> length r1"
    using squeeze_conv_MatD [of conv r1 m1] by simp_all
  from l1 have ne1: "r1 \<noteq> []" by auto
  note pr1 = scan_rows_props [OF s2]
  from c1 m1 m1' ne1 have h1: "length (hd r1) = 14"
    by (simp add: hd_map length_glow_var)
  with pr1(1) have cols1: "\<forall>r\<in>set r1. length r = 14" by simp
  from g3 obtain r2 where s3: "scan_rows 1 Nalt t2 = (r2, [], t3)"
    and d2: "dat2 = squeeze (map (map conv) r2)"
    by (auto simp: genfromtxt_Inr_iff)
  from i00 obtain m2 where m2: "dat2 = Mat m2" and a: "a = hd (hd m2)"
    by (auto simp: item00_Inr_iff)
  from d2 m2 have m2': "m2 = map (map conv) r2" and l2: "2 \<le> length r2"
    using squeeze_conv_MatD [of conv r2 m2] by simp_all
  from l2 have ne2: "r2 \<noteq> []" by auto
  note pr2 = scan_rows_props [OF s3]
  from da m2 m2' alt m1' have len: "length r2 = length r1"
    and w: "list_all (\<lambda>r. length r = length wavelen) (map tl (map (map conv) r2))"
    by (auto simp: xr_DataArray_def split: if_splits)
  from w have "\<forall>r\<in>set r2. length (tl r) = 15"
    by (simp add: list_all_iff length_wavelen)
  moreover from pr2(1) have "\<forall>r\<in>set r2. r \<noteq> []" by simp
  ultimately have cols2: "\<forall>r\<in>set r2. length r = 16"
    by (auto simp: length_tl)
  have full1: "length r1 = 102"
  proof (rule ccontr)
    assume "length r1 \<noteq> 102"
    with pr1(2) have "length r1 < Nalt" by (simp add: Nalt_def)
    with pr1(3) have "t2 = []" by (simp add: Nalt_def)
    with s3 have "r2 = []" by (simp add: scan_rows_Nil)
    with ne2 show False by simp
  qed
  from cols1 ne1 have hne1: "hd r1 \<noteq> []" by (cases r1) auto
  from cols2 ne2 have hne2: "hd r2 \<noteq> []" by (cases r2) auto
  from i0 alt m1' ne1 hne1 have a0: "a0 = conv (hd (hd r1))"
    by (cases r1) (auto simp: hd_map)
  from a m2' ne2 hne2 have a': "a = conv (hd (hd r2))" by (simp add: hd_map)
  have ds: "ds = assemble conv r1 r2"
    using glowparse_table_shaped [OF sh [unfolded hrow] lh s2 l1 cols1 s3 len cols2, of conv feq]
      fe a0 a' assms by simp
  from that [OF sh [unfolded hrow] lh s2 full1 cols1 s3 _ cols2 _ ds] len full1 fe a0 a'
  show thesis by simp
qed

section \<open>Texts of a known layout\<close>

lemma iter_lines_acc_line:
  "newline \<notin> set l \<Longrightarrow>
   iter_lines_acc cur (l @ newline # rest) = (cur @ l @ [newline]) # iter_lines_acc [] rest"
  by (induction l arbitrary: cur) auto

lemma iter_lines_unlines:
  "\<forall>l\<in>set ls. newline \<notin> set l \<Longrightarrow> iter_lines (unlines ls) = map terminated ls"
proof (induction ls)
  case Nil
  then show ?case by (simp add: iter_lines_def unlines_def)
next
  case (Cons l ls)
  then have "iter_lines_acc [] (l @ newline # unlines ls) = ([] @ l @ [newline]) # iter_lines_acc [] (unlines ls)"
    by (intro iter_lines_acc_line) simp
  with Cons show ?case by (simp add: iter_lines_def unlines_def terminated_def)
qed

lemma dropWhile_blank_prefix:
  "\<forall>b\<in>set blanks. P b \<Longrightarrow> \<not> P x \<Longrightarrow> dropWhile P (blanks @ x # xs) = x # xs"
  by (induction blanks) auto

lemma scan_rows_header_layout:
  assumes "\<forall>b\<in>set blanks. split_line b = []" "split_line hdr \<noteq> []"
  shows "scan_rows 1 1 (echo # blanks @ hdr # rest) = ([split_line hdr], [], rest)"
proof -
  have "dropWhile (\<lambda>l. split_line l = []) (drop 1 (echo # blanks @ hdr # rest)) = hdr # rest"
    using assms by (simp add: dropWhile_blank_prefix)
  then show ?thesis unfolding scan_rows_header by simp
qed

lemma scan_rows_block_layout:
  assumes "rows \<noteq> []" "length rows = m" "\<forall>r\<in>set rows. length (split_line r) = n" "0 < n"
  shows "scan_rows 1 m (title # rows @ rest) = (map split_line rows, [], rest)"
proof -
  from assms obtain r rs where rows: "rows = r # rs" by (cases rows) auto
  with assms have r: "split_line r \<noteq> []" "length (split_line r) = n" by auto
  have d: "dropWhile (\<lambda>l. split_line l = []) (drop 1 (title # rows @ rest)) = r # (rs @ rest)"
    using r rows by simp
  have "collect_rows n m (rows @ rest) [] [] = ([] @ map split_line rows, [], rest)"
    using assms by (intro collect_rows_block) simp_all
  then show ?thesis
    unfolding scan_rows_def Let_def d using r rows by simp
qed

lemma scan_rows_untitled:
  assumes "rows1 \<noteq> []" "length rows1 \<le> m" "\<forall>r\<in>set rows1. length (split_line r) = n" "0 < n"
    "rows2 \<noteq> []" "\<forall>r\<in>set rows2. split_line r \<noteq> [] \<and> length (split_line r) \<noteq> n"
    "2 \<le> length rows1"
  shows "fst (snd (scan_rows 1 m (rows1 @ rows2))) \<noteq> []"
proof -
  from assms obtain r0 r rs where rows: "rows1 = r0 # r # rs"
    by (cases rows1; cases "tl rows1") auto
  with assms have r: "split_line r \<noteq> []" "length (split_line r) = n" by auto
  have d: "dropWhile (\<lambda>l. split_line l = []) (drop 1 (rows1 @ rows2)) = r # (rs @ rows2)"
    using r rows by simp
  have "collect_rows n m ((r # rs) @ rows2) [] [] = collect_rows n m rows2 ([] @ map split_line (r # rs)) []"
    using assms rows by (intro collect_rows_good) simp_all
  also have "\<dots> = ([] @ map split_line (r # rs), [] @ map (\<lambda>l. length (split_line l)) rows2, [])"
    using assms(6) by (rule collect_rows_bad)
  finally have "collect_rows n m (r # rs @ rows2) [] [] =
      (map split_line (r # rs), map (\<lambda>l. length (split_line l)) rows2, [])" by simp
  then show ?thesis
    unfolding scan_rows_def Let_def d using r assms(5) by simp
qed

lemma header_row_scan:
  "scan_rows 1 1 (iter_lines raw) = (h, bad, t) \<Longrightarrow>
   h = (if header_row raw = [] then [] else [header_row raw]) \<and> bad = []"
proof -
  assume a: "scan_rows 1 1 (iter_lines raw) = (h, bad, t)"
  show ?thesis
  proof (cases "dropWhile (\<lambda>l. split_line l = []) (drop 1 (iter_lines raw))")
    case Nil
    from a show ?thesis unfolding scan_rows_header header_row_def Nil by simp
  next
    case (Cons l ls)
    then have "split_line l \<noteq> []"
      using hd_dropWhile [of "\<lambda>l. split_line l = []" "drop 1 (iter_lines raw)"] by auto
    with a show ?thesis unfolding scan_rows_header header_row_def Cons by auto
  qed
qed

lemma header_size:
  "\<exists>header. genfromtxt conv (iter_lines raw) 1 1 = Inr (header, after_header raw) \<and>
     ndsize header = length (header_row raw)"
proof -
  obtain h bad t where s: "scan_rows 1 1 (iter_lines raw) = (h, bad, t)"
    by (cases "scan_rows 1 1 (iter_lines raw)")
  from header_row_scan [OF s]
  have h: "h = (if header_row raw = [] then [] else [header_row raw])" and b: "bad = []"
    by simp_all
  from s have t: "after_header raw = t" by (simp add: after_header_def)
  have g: "genfromtxt conv (iter_lines raw) 1 1 = Inr (squeeze (map (map conv) h), after_header raw)"
    using s b t genfromtxt_scan [of 1 1 "iter_lines raw" h t conv] by simp
  have "ndsize (squeeze (map (map conv) h)) = length (header_row raw)"
  proof (cases "header_row raw = []")
    case True
    with h show ?thesis by (simp add: squeeze_def)
  next
    case False
    with h have "h = [header_row raw]" by simp
    then show ?thesis using ndsize_squeeze_single [of conv "header_row raw"] by simp
  qed
  with g show ?thesis by blast
qed

lemma glowparse_InrD:
  assumes "glowparse conv feq raw = Inr ds"
  shows "length (header_row raw) = 10"
    and "length (first_block raw) = 102" and "\<forall>r\<in>set (first_block raw). length r = 14"
    and "length (second_block raw) = 102" and "\<forall>r\<in>set (second_block raw). length r = 16"
    and "feq (conv (hd (hd (second_block raw)))) (conv (hd (hd (first_block raw))))"
    and "ds = assemble conv (first_block raw) (second_block raw)"
proof -
  from assms have "glowparse_table conv feq (iter_lines raw) = Inr ds"
    by (simp add: glowparse_def)
  then obtain hrow t1 r1 t2 r2 t3 where
    s1: "scan_rows 1 1 (iter_lines raw) = ([hrow], [], t1)" and lh: "length hrow = 10" and
    s2: "scan_rows 1 Nalt t1 = (r1, [], t2)" and l1: "length r1 = 102"
      and c1: "\<forall>r\<in>set r1. length r = 14" and
    s3: "scan_rows 1 Nalt t2 = (r2, [], t3)" and l2: "length r2 = 102"
      and c2: "\<forall>r\<in>set r2. length r = 16" and
    fe: "feq (conv (hd (hd r2))) (conv (hd (hd r1)))" and ds: "ds = assemble conv r1 r2"
    by (rule glowparse_table_InrD)
  from header_row_scan [OF s1] have hr: "header_row raw = hrow"
    by (auto split: if_splits)
  from s1 have t1: "after_header raw = t1" by (simp add: after_header_def)
  from s2 t1 have fb: "first_block raw = r1" and t2: "after_first_block raw = t2"
    by (simp_all add: first_block_def after_first_block_def)
  from s3 t2 have sb: "second_block raw = r2" by (simp add: second_block_def)
  from hr lh show "length (header_row raw) = 10" by simp
  from fb l1 show "length (first_block raw) = 102" by simp
  from fb c1 show "\<forall>r\<in>set (first_block raw). length r = 14" by simp
  from sb l2 show "length (second_block raw) = 102" by simp
  from sb c2 show "\<forall>r\<in>set (second_block raw). length r = 16" by simp
  from fb sb fe show "feq (conv (hd (hd (second_block raw)))) (conv (hd (hd (first_block raw))))"
    by simp
  from fb sb ds show "ds = assemble conv (first_block raw) (second_block raw)" by simp
qed

lemma glowparse_layout:
  assumes lines: "iter_lines raw = echo # blanks @ hdr # title1 # rows1 @ title2 # rows2 @ rest"
    and blanks: "\<forall>b\<in>set blanks. split_line b = []"
    and hdr: "length (split_line hdr) = 10"
    and r1: "length rows1 = 102" "\<forall>r\<in>set rows1. length (split_line r) = 14"
    and r2: "length rows2 = 102" "\<forall>r\<in>set rows2. length (split_line r) = 16"
  shows "glowparse conv feq raw =
    (if feq (conv (hd (split_line (hd rows2)))) (conv (hd (split_line (hd rows1))))
     then Inr (assemble conv (map split_line rows1) (map split_line rows2))
     else Inl AssertionError)"
proof -
  from hdr have hne: "split_line hdr \<noteq> []" by auto
  from r1 have ne1: "rows1 \<noteq> []" by auto
  from r2 have ne2: "rows2 \<noteq> []" by auto
  have s1: "scan_rows 1 1 (iter_lines raw) =
      ([split_line hdr], [], title1 # rows1 @ title2 # rows2 @ rest)"
    unfolding lines using blanks hne by (rule scan_rows_header_layout)
  have s2: "scan_rows 1 Nalt (title1 # rows1 @ title2 # rows2 @ rest) =
      (map split_line rows1, [], title2 # rows2 @ rest)"
    using ne1 r1 by (intro scan_rows_block_layout [where n = 14]) (simp_all add: Nalt_def)
  have s3: "scan_rows 1 Nalt (title2 # rows2 @ rest) = (map split_line rows2, [], rest)"
    using ne2 r2 by (intro scan_rows_block_layout [where n = 16]) (simp_all add: Nalt_def)
  have "glowparse_table conv feq (iter_lines raw) =
    (if feq (conv (hd (hd (map split_line rows2)))) (conv (hd (hd (map split_line rows1))))
     then Inr (assemble conv (map split_line rows1) (map split_line rows2))
     else Inl AssertionError)"
    using s1 hdr s2 _ _ s3
  proof (rule glowparse_table_shaped)
    show "2 \<le> length (map split_line rows1)" using r1 by simp
    show "\<forall>r\<in>set (map split_line rows1). length r = 14" using r1 by simp
    show "length (map split_line rows2) = length (map split_line rows1)" using r1 r2 by simp
    show "\<forall>r\<in>set (map split_line rows2). length r = 16" using r2 by simp
  qed
  then show ?thesis using ne1 ne2 by (simp add: glowparse_def hd_map)
qed

lemma glowparse_untitled:
  assumes lines: "iter_lines raw = echo # hdr # rows1 @ rows2"
    and hdr: "length (split_line hdr) = 10"
    and r1: "length rows1 = 102" "\<forall>r\<in>set rows1. length (split_line r) = 14"
    and r2: "length rows2 = 102" "\<forall>r\<in>set rows2. length (split_line r) = 16"
  shows "glowparse conv feq raw = Inl ValueError"
proof -
  from hdr have hne: "split_line hdr \<noteq> []" by auto
  have s1: "scan_rows 1 1 (iter_lines raw) = ([split_line hdr], [], rows1 @ rows2)"
    unfolding lines using scan_rows_header_layout [of "[]" hdr echo "rows1 @ rows2"] hne by simp
  have g1: "genfromtxt conv (iter_lines raw) 1 1 = Inr (squeeze (map (map conv) [split_line hdr]), rows1 @ rows2)"
    using s1 by (rule genfromtxt_scan)
  have sz: "ndsize (squeeze (map (map conv) [split_line hdr])) = 10"
    using ndsize_squeeze_single [of conv "split_line hdr"] hdr by simp
  have "fst (snd (scan_rows 1 Nalt (rows1 @ rows2))) \<noteq> []"
    using r1 r2 by (intro scan_rows_untitled [where n = 14]) (auto simp: Nalt_def)
  then have g2: "genfromtxt conv (rows1 @ rows2) 1 Nalt = Inl ValueError"
    by (cases "scan_rows 1 Nalt (rows1 @ rows2)") (simp add: genfromtxt_def)
  show ?thesis
    unfolding glowparse_def glowparse_table_def
    by (simp only: g1 g2 sz sum.case prod.case) simp
qed

lemma scan_rows_short:
  assumes "rows \<noteq> []" "length rows < m" "\<forall>r\<in>set rows. length (split_line r) = n" "0 < n"
  shows "scan_rows 1 m (title # rows) = (map split_line rows, [], [])"
proof -
  from assms obtain r rs where rows: "rows = r # rs" by (cases rows) auto
  with assms have r: "split_line r \<noteq> []" "length (split_line r) = n" by auto
  have d: "dropWhile (\<lambda>l. split_line l = []) (drop 1 (title # rows)) = r # rs"
    using r rows by simp
  have "collect_rows n m (rows @ []) [] [] = collect_rows n m [] ([] @ map split_line rows) []"
    using assms by (intro collect_rows_good) simp_all
  then have "collect_rows n m rows [] [] = (map split_line rows, [], [])" by simp
  then show ?thesis
    unfolding scan_rows_def Let_def d using r rows by simp
qed

lemma scan_first_block:
  "scan_rows 1 Nalt (after_header raw) =
     (first_block raw, first_block_invalid raw, after_first_block raw)"
  by (simp add: first_block_def first_block_invalid_def after_first_block_def)

lemma scan_second_block:
  "scan_rows 1 Nalt (after_first_block raw) =
     (second_block raw, second_block_invalid raw, after_second_block raw)"
  by (simp add: second_block_def second_block_invalid_def after_second_block_def)

lemma scan_header_row:
  "length (header_row raw) = 10 \<Longrightarrow>
   scan_rows 1 1 (iter_lines raw) = ([header_row raw], [], after_header raw)"
proof -
  assume a: "length (header_row raw) = 10"
  obtain h bad t where s: "scan_rows 1 1 (iter_lines raw) = (h, bad, t)"
    by (cases "scan_rows 1 1 (iter_lines raw)")
  from a have "header_row raw \<noteq> []" by auto
  with header_row_scan [OF s] have "h = [header_row raw]" "bad = []" by simp_all
  moreover from s have "t = after_header raw" by (simp add: after_header_def)
  ultimately show ?thesis using s by simp
qed

lemma block_columns:
  assumes "scan_rows s m fhd = (rows, bad, rest)"
  shows "\<forall>r\<in>set rows. length r = ncols rows"
  using scan_rows_props(1) [OF assms] by (cases rows) (auto simp: ncols_def)

lemma header_row_layout:
  assumes "iter_lines raw = echo # blanks @ hdr # rest"
    "\<forall>b\<in>set blanks. split_line b = []" "split_line hdr \<noteq> []"
  shows "header_row raw = split_line hdr" "after_header raw = rest"
proof -
  have d: "dropWhile (\<lambda>l. split_line l = []) (drop 1 (iter_lines raw)) = hdr # rest"
    using assms by (simp add: dropWhile_blank_prefix)
  show "header_row raw = split_line hdr" unfolding header_row_def d by simp
  show "after_header raw = rest"
    unfolding after_header_def assms(1) scan_rows_header_layout [OF assms(2,3)] by simp
qed

lemma first_block_layout:
  assumes "after_header raw = title # rows @ rest" "length rows = 102"
    "\<forall>r\<in>set rows. length (split_line r) = n" "0 < n"
  shows "first_block raw = map split_line rows" "first_block_invalid raw = []"
    "after_first_block raw = rest"
proof -
  from assms(2) have "rows \<noteq> []" by auto
  then have "scan_rows 1 Nalt (title # rows @ rest) = (map split_line rows, [], rest)"
    using assms(2-4) by (intro scan_rows_block_layout [where n = n]) (simp_all add: Nalt_def)
  then show "first_block raw = map split_line rows" "first_block_invalid raw = []"
    "after_first_block raw = rest"
    by (simp_all add: first_block_def first_block_invalid_def after_first_block_def assms(1))
qed

lemma second_block_layout:
  assumes "after_first_block raw = title # rows @ rest" "length rows = 102"
    "\<forall>r\<in>set rows. length (split_line r) = n" "0 < n"
  shows "second_block raw = map split_line rows" "second_block_invalid raw = []"
proof -
  from assms(2) have "rows \<noteq> []" by auto
  then have "scan_rows 1 Nalt (title # rows @ rest) = (map split_line rows, [], rest)"
    using assms(2-4) by (intro scan_rows_block_layout [where n = n]) (simp_all add: Nalt_def)
  then show "second_block raw = map split_line rows" "second_block_invalid raw = []"
    by (simp_all add: second_block_def second_block_invalid_def assms(1))
qed

lemma second_block_short:
  assumes "after_first_block raw = title # rows" "rows \<noteq> []" "length rows < 102"
    "\<forall>r\<in>set rows. length (split_line r) = n" "0 < n"
  shows "second_block raw = map split_line rows"
proof -
  have "scan_rows 1 Nalt (title # rows) = (map split_line rows, [], [])"
    using assms(2-5) by (intro scan_rows_short [where n = n]) (simp_all add: Nalt_def)
  then show ?thesis by (simp add: second_block_def assms(1))
qed

lemma glowparse_shaped:
  assumes "length (header_row raw) = 10"
    and "first_block_invalid raw = []" "length (first_block raw) = 102"
      "ncols (first_block raw) = 14"
    and "second_block_invalid raw = []" "length (second_block raw) = 102"
      "ncols (second_block raw) = 16"
  shows "glowparse conv feq raw =
    (if feq (conv (hd (hd (second_block raw)))) (conv (hd (hd (first_block raw))))
     then Inr (assemble conv (first_block raw) (second_block raw))
     else Inl AssertionError)"
proof -
  have s1: "scan_rows 1 1 (iter_lines raw) = ([header_row raw], [], after_header raw)"
    using assms(1) by (rule scan_header_row)
  have s2: "scan_rows 1 Nalt (after_header raw) = (first_block raw, [], after_first_block raw)"
    using scan_first_block [of raw] assms(2) by simp
  have s3: "scan_rows 1 Nalt (after_first_block raw) =
      (second_block raw, [], after_second_block raw)"
    using scan_second_block [of raw] assms(5) by simp
  have c1: "\<forall>r\<in>set (first_block raw). length r = 14"
    using block_columns [OF s2] assms(4) by simp
  have c2: "\<forall>r\<in>set (second_block raw). length r = 16"
    using block_columns [OF s3] assms(7) by simp
  have l1: "2 \<le> length (first_block raw)" using assms(3) by simp
  have l2: "length (second_block raw) = length (first_block raw)" using assms(3,6) by simp
  show ?thesis
    unfolding glowparse_def
    by (rule glowparse_table_shaped [OF s1 assms(1) s2 l1 c1 s3 l2 c2])
qed

lemma glowparse_wrong_columns:
  assumes "length (header_row raw) = 10"
    and "first_block_invalid raw = []" "2 \<le> length (first_block raw)"
      "2 \<le> ncols (first_block raw)" "ncols (first_block raw) \<noteq> 14"
  shows "glowparse conv feq raw = Inl ValueError"
proof -
  let ?r1 = "first_block raw"
  have s1: "scan_rows 1 1 (iter_lines raw) = ([header_row raw], [], after_header raw)"
    using assms(1) by (rule scan_header_row)
  have g1: "genfromtxt conv (iter_lines raw) 1 1 =
      Inr (squeeze (map (map conv) [header_row raw]), after_header raw)"
    using s1 by (rule genfromtxt_scan)
  have sz: "(ndsize (squeeze (map (map conv) [header_row raw])) \<noteq> 10) = False"
    using ndsize_squeeze_single [of conv "header_row raw"] assms(1) by simp
  have s2: "scan_rows 1 Nalt (after_header raw) = (?r1, [], after_first_block raw)"
    using scan_first_block [of raw] assms(2) by simp
  from assms(3) have ne: "?r1 \<noteq> []" by auto
  then have h: "length (hd ?r1) = ncols ?r1" by (cases ?r1) (simp_all add: ncols_def)
  have sq: "squeeze (map (map conv) ?r1) = Mat (map (map conv) ?r1)"
    using assms(3,4) h by (intro squeeze_conv_Mat) simp_all
  have g2: "genfromtxt conv (after_header raw) 1 Nalt =
      Inr (Mat (map (map conv) ?r1), after_first_block raw)"
    using genfromtxt_scan [OF s2, of conv] by (simp only: sq)
  have c0: "col0 (Mat (map (map conv) ?r1)) = Inr (map hd (map (map conv) ?r1))" by simp
  have sh: "(int (length glow_var) \<noteq> int (shape1 (Mat (map (map conv) ?r1))) - 1) = True"
    using ne h assms(4,5) by (simp add: hd_map length_glow_var)
  show ?thesis
    unfolding glowparse_def glowparse_table_def
    by (simp only: g1 g2 sz c0 sh sum.case prod.case if_False if_True)
qed

section \<open>The shape of the assembled dataset\<close>

lemma profiles_zip:
  "concat (map (\<lambda>(k, v). case v of Var1D p \<Rightarrow> [(k, p)] | Var2D m \<Rightarrow> [])
     (zip ks (map Var1D cs))) = zip ks cs"
  by (induction ks cs rule: list_induct2') simp_all

lemma arrays_zip:
  "concat (map (\<lambda>(k, v). case v of Var1D p \<Rightarrow> [] | Var2D m \<Rightarrow> [(k, m)])
     (zip ks (map Var1D cs))) = []"
  by (induction ks cs rule: list_induct2') simp_all

lemma profiles_assemble:
  "profiles (assemble conv r1 r2) = zip glow_var (columns (map (\<lambda>r. map conv (tl r)) r1))"
  by (simp add: profiles_def assemble_def profiles_zip)

lemma arrays_assemble:
  "arrays (assemble conv r1 r2) = [(''ver'', map (\<lambda>r. map conv (tl r)) r2)]"
  by (simp add: arrays_def assemble_def arrays_zip)

lemma assemble_shape:
  assumes "length r1 = 102" "\<forall>r\<in>set r1. length r = 14"
    "length r2 = 102" "\<forall>r\<in>set r2. length r = 16"
  shows "length (alt_km (assemble conv r1 r2)) = 102"
    and "map fst (profiles (assemble conv r1 r2)) = glow_var"
    and "length (profiles (assemble conv r1 r2)) = 13"
    and "\<forall>(k, p)\<in>set (profiles (assemble conv r1 r2)). length p = 102"
    and "\<exists>m. arrays (assemble conv r1 r2) = [(''ver'', m)] \<and> length m = 102 \<and>
           (\<forall>row\<in>set m. length row = 15)"
    and "wavelength (assemble conv r1 r2) = Some wavelen"
proof -
  from assms(1) have ne: "r1 \<noteq> []" by auto
  with assms(2) have h: "length (hd r1) = 14" by simp
  have lc: "length (columns (map (\<lambda>r. map conv (tl r)) r1)) = 13"
    using ne h by (simp add: length_columns hd_map)
  show "length (alt_km (assemble conv r1 r2)) = 102"
    using assms(1) by (simp add: assemble_def)
  show "map fst (profiles (assemble conv r1 r2)) = glow_var"
    using lc by (simp add: profiles_assemble map_fst_zip_take length_glow_var)
  show "length (profiles (assemble conv r1 r2)) = 13"
    using lc by (simp add: profiles_assemble length_glow_var)
  show "\<forall>(k, p)\<in>set (profiles (assemble conv r1 r2)). length p = 102"
    using columns_lengths [of "map (\<lambda>r. map conv (tl r)) r1"] assms(1)
    by (auto simp: profiles_assemble dest: set_zip_rightD)
  show "\<exists>m. arrays (assemble conv r1 r2) = [(''ver'', m)] \<and> length m = 102 \<and>
           (\<forall>row\<in>set m. length row = 15)"
    using assms(3,4) by (simp add: arrays_assemble)
  show "wavelength (assemble conv r1 r2) = Some wavelen"
    by (simp add: assemble_def)
qed

lemma getitem_Tn:
  assumes "r1 \<noteq> []" "\<forall>r\<in>set r1. length r = 14"
  shows "getitem (assemble conv r1 r2) ''Tn'' = Some (Var1D (map (\<lambda>r. conv (r ! 1)) r1))"
proof -
  let ?m = "map (\<lambda>r. map conv (tl r)) r1"
  from assms have h: "length (hd r1) = 14" by simp
  then have "length (hd ?m) = 13" using assms(1) by (simp add: hd_map)
  then have "[0..<length (hd ?m)] = 0 # [1..<13]"
    by (simp add: upt_conv_Cons)
  then have c: "columns ?m = map (\<lambda>r. r ! 0) ?m # map (\<lambda>j. map (\<lambda>r. r ! j) ?m) [1..<13]"
    by (simp add: columns_def)
  have "map (\<lambda>r. r ! 0) ?m = map (\<lambda>r. conv (r ! 1)) r1"
    using assms(2) by (auto simp: nth_tl)
  with c show ?thesis
    by (simp add: getitem_def assemble_def glow_var_def)
qed

section \<open>Facts about the concrete texts\<close>

lemma split_line_word:
  assumes "w \<noteq> []" and "\<forall>c\<in>set w. \<not> is_space c \<and> c \<noteq> CHR ''#''"
  shows "split_line (w @ CHR '' '' # rest) = w # split_line rest"
proof -
  from assms(1) obtain c cs where w: "w = c # cs" by (cases w) auto
  have sp: "is_space (CHR '' '')" by (simp add: is_space_def)
  have t: "takeWhile (\<lambda>c. c \<noteq> CHR ''#'') (w @ CHR '' '' # rest) =
      w @ CHR '' '' # takeWhile (\<lambda>c. c \<noteq> CHR ''#'') rest"
    using assms(2) by (simp add: takeWhile_append2)
  have a: "takeWhile (\<lambda>x. \<not> is_space x) (cs @ CHR '' '' # r) = cs" for r
    using assms(2) w sp by (simp add: takeWhile_append2)
  have b: "dropWhile (\<lambda>x. \<not> is_space x) (cs @ CHR '' '' # r) = CHR '' '' # r" for r
    using assms(2) w sp by (simp add: dropWhile_append2)
  have "split_ws (w @ CHR '' '' # r) = w # split_ws r" for r
    using assms(2) w sp by (simp add: a b)
  with t show ?thesis by (simp add: split_line_def)
qed

lemma str_nat_not_Nil: "str_nat n \<noteq> []"
  by (subst str_nat.simps) simp

lemma str_nat_word: "\<forall>c\<in>set (str_nat n). \<not> is_space c \<and> c \<noteq> CHR ''#''"
proof
  fix c assume "c \<in> set (str_nat n)"
  with set_str_nat [of n] have "c \<in> set ''0123456789''" by blast
  then show "\<not> is_space c \<and> c \<noteq> CHR ''#''" by (auto simp: is_space_def)
qed

lemma no_newline_str_nat: "newline \<notin> set (str_nat n)"
  using set_str_nat [of n] by (auto simp: newline_def)

lemma digits_conv_str_nat: "digits_conv (str_nat n) = Some n"
proof -
  have "list_all (\<lambda>c. c \<in> set ''0123456789'') (str_nat n)"
    using set_str_nat [of n] unfolding list_all_iff by blast
  then show ?thesis
    by (simp add: digits_conv_def str_nat_not_Nil int_of_digits_str_nat)
qed

lemma fields_header_line:
  "split_line (terminated header_line) =
     [''2015347'', ''36000'', ''65'', ''148'', ''70'', ''71'', ''72'', ''4'', ''1'', ''2000'']"
  by (simp add: header_line_def terminated_def newline_def split_line_def is_space_def)

lemma fields_short_header_line:
  "split_line (terminated short_header_line) = [''2015347'', ''36000'', ''65'']"
  by (simp add: short_header_line_def terminated_def newline_def split_line_def is_space_def)

lemma fields_blank: "split_line (terminated []) = []"
  by (simp add: terminated_def newline_def split_line_def is_space_def)

lemma fields_profile_row:
  "split_line (terminated (profile_row z i)) =
     [str_nat (z + i), str_nat (200 + i), ''31'', ''47'', ''12'', ''95'', ''60'', ''7'', ''28'',
      ''64'', ''53'', ''19'', ''76'', ''88'']"
proof -
  have "split_line (CHR ''3'' # CHR ''1'' # '' 47 12 95 60 7 28 64 53 19 76 88'' @ [newline]) =
      [''31'', ''47'', ''12'', ''95'', ''60'', ''7'', ''28'', ''64'', ''53'', ''19'', ''76'', ''88'']"
    by (simp add: newline_def split_line_def is_space_def)
  then show ?thesis
    by (simp add: profile_row_def terminated_def split_line_word str_nat_not_Nil str_nat_word)
qed

lemma fields_narrow_row:
  "split_line (terminated (narrow_row z i)) =
     [str_nat (z + i), str_nat (200 + i), ''31'', ''47'', ''12'', ''95'', ''60'', ''7'', ''28'',
      ''64'', ''53'', ''19'', ''76'']"
proof -
  have "split_line (CHR ''3'' # CHR ''1'' # '' 47 12 95 60 7 28 64 53 19 76'' @ [newline]) =
      [''31'', ''47'', ''12'', ''95'', ''60'', ''7'', ''28'', ''64'', ''53'', ''19'', ''76'']"
    by (simp add: newline_def split_line_def is_space_def)
  then show ?thesis
    by (simp add: narrow_row_def terminated_def split_line_word str_nat_not_Nil str_nat_word)
qed

lemma fields_ver_row:
  "split_line (terminated (ver_row z i)) =
     [str_nat (z + i), ''15'', ''42'', ''8'', ''23'', ''4'', ''16'', ''77'', ''35'', ''61'', ''59'',
      ''26'', ''90'', ''11'', ''38'', ''6'']"
proof -
  have "split_line (CHR ''1'' # CHR ''5'' # '' 42 8 23 4 16 77 35 61 59 26 90 11 38 6'' @ [newline]) =
      [''15'', ''42'', ''8'', ''23'', ''4'', ''16'', ''77'', ''35'', ''61'', ''59'', ''26'', ''90'',
       ''11'', ''38'', ''6'']"
    by (simp add: newline_def split_line_def is_space_def)
  then show ?thesis
    by (simp add: ver_row_def terminated_def split_line_word str_nat_not_Nil str_nat_word)
qed

lemma no_newline_sample:
  "newline \<notin> set echo_line" "newline \<notin> set header_line" "newline \<notin> set title_line1"
  "newline \<notin> set title_line2" "newline \<notin> set short_header_line"
  "newline \<notin> set (profile_row z i)" "newline \<notin> set (narrow_row z i)"
  "newline \<notin> set (ver_row z i)"
  by (simp_all add: echo_line_def header_line_def title_line1_def title_line2_def
        short_header_line_def profile_row_def narrow_row_def ver_row_def no_newline_str_nat)
    (simp_all add: newline_def)

lemma iter_lines_glow_text:
  assumes "newline \<notin> set hdr" "\<forall>r\<in>set rows1. newline \<notin> set r"
    "\<forall>r\<in>set rows2. newline \<notin> set r"
  shows "iter_lines (glow_text hdr rows1 rows2) =
     terminated echo_line # [] @ terminated hdr # terminated title_line1 # map terminated rows1 @
     terminated title_line2 # map terminated rows2 @ []"
proof -
  have "\<forall>l\<in>set (echo_line # hdr # title_line1 # rows1 @ title_line2 # rows2). newline \<notin> set l"
    using assms by (auto simp: no_newline_sample)
  from iter_lines_unlines [OF this] show ?thesis by (simp add: glow_text_def)
qed

lemma hd_map_upt: "0 < n \<Longrightarrow> hd (map f [0..<n]) = f 0"
  by (simp add: upt_conv_Cons)

lemma sample_rows:
  "\<forall>r\<in>set (map (profile_row z) [0..<n]). newline \<notin> set r"
  "\<forall>r\<in>set (map (narrow_row z) [0..<n]). newline \<notin> set r"
  "\<forall>r\<in>set (map (ver_row z) [0..<n]). newline \<notin> set r"
  "\<forall>r\<in>set (map terminated (map (profile_row z) [0..<n])). length (split_line r) = 14"
  "\<forall>r\<in>set (map terminated (map (narrow_row z) [0..<n])). length (split_line r) = 13"
  "\<forall>r\<in>set (map terminated (map (ver_row z) [0..<n])). length (split_line r) = 16"
  by (auto simp: no_newline_sample fields_profile_row fields_narrow_row fields_ver_row)

lemma sample_anchor:
  "hd (split_line (hd (map terminated (map (profile_row z) [0..<102])))) = str_nat z"
  "hd (split_line (hd (map terminated (map (ver_row z) [0..<102])))) = str_nat z"
  by (simp_all add: hd_map hd_map_upt fields_profile_row fields_ver_row)

section \<open>The properties\<close>

text \<open>
  Claim C1, as amended. A text made of a first line, a header row of 10 fields,
  one line that is skipped, 102 rows of 14 fields (altitude and 13 quantities),
  one more line that is skipped, and 102 rows of 16 fields (altitude and 15
  emission rates), in which the first altitude of the second block equals the
  first altitude of the first block, is parsed successfully, whatever follows
  it. The dataset has an altitude coordinate of length 102, exactly the 13
  named profiles of \<open>glow_var\<close>, each over the 102 altitudes, and one
  2-dimensional array, \<open>ver\<close>, of 102 rows of width 15 over the 15
  wavelength labels.
\<close>

theorem glowparse_well_formed:
  assumes "iter_lines raw = echo # hdr # title1 # rows1 @ title2 # rows2 @ rest"
    and "length (split_line hdr) = 10"
    and "length rows1 = 102" and "\<forall>r\<in>set rows1. length (split_line r) = 14"
    and "length rows2 = 102" and "\<forall>r\<in>set rows2. length (split_line r) = 16"
    and "feq (conv (hd (split_line (hd rows2)))) (conv (hd (split_line (hd rows1))))"
  shows "\<exists>ds. glowparse conv feq raw = Inr ds \<and>
           length (alt_km ds) = 102 \<and>
           map fst (profiles ds) = glow_var \<and> length (profiles ds) = 13 \<and>
           (\<forall>(k, p)\<in>set (profiles ds). length p = 102) \<and>
           (\<exists>m. arrays ds = [(''ver'', m)] \<and> length m = 102 \<and>
                (\<forall>row\<in>set m. length row = 15)) \<and>
           wavelength ds = Some wavelen \<and> length wavelen = 15"
proof -
  let ?ds = "assemble conv (map split_line rows1) (map split_line rows2)"
  have l: "iter_lines raw = echo # [] @ hdr # title1 # rows1 @ title2 # rows2 @ rest"
    using assms(1) by simp
  have g: "glowparse conv feq raw = Inr ?ds"
    using glowparse_layout [OF l _ assms(2-6), of conv feq] assms(7) by simp
  have s: "length (map split_line rows1) = 102" "\<forall>r\<in>set (map split_line rows1). length r = 14"
    "length (map split_line rows2) = 102" "\<forall>r\<in>set (map split_line rows2). length r = 16"
    using assms(3-6) by simp_all
  note sh = assemble_shape [OF s, of conv]
  from g sh length_wavelen show ?thesis by blast
qed

text \<open>
  The hypotheses of C1 hold for the text \<open>glow_text\<close> with 102 profile rows
  and 102 emission rows at the altitudes 80 to 181.
\<close>

theorem glowparse_well_formed_witness:
  "\<exists>ds. glowparse digits_conv nan_eq
          (glow_text header_line (map (profile_row 80) [0..<102])
             (map (ver_row 80) [0..<102])) = Inr ds \<and>
        length (alt_km ds) = 102 \<and>
        map fst (profiles ds) = glow_var \<and> length (profiles ds) = 13 \<and>
        (\<forall>(k, p)\<in>set (profiles ds). length p = 102) \<and>
        (\<exists>m. arrays ds = [(''ver'', m)] \<and> length m = 102 \<and>
             (\<forall>row\<in>set m. length row = 15)) \<and>
        wavelength ds = Some wavelen \<and> length wavelen = 15"
proof -
  let ?rows1 = "map (profile_row 80) [0..<102]"
  let ?rows2 = "map (ver_row 80) [0..<102]"
  have l: "iter_lines (glow_text header_line ?rows1 ?rows2) =
     terminated echo_line # terminated header_line # terminated title_line1 #
     map terminated ?rows1 @ terminated title_line2 # map terminated ?rows2 @ []"
    using iter_lines_glow_text [OF no_newline_sample(2) sample_rows(1) sample_rows(3)] by simp
  have h: "length (split_line (terminated header_line)) = 10"
    by (simp add: fields_header_line)
  have l1: "length (map terminated ?rows1) = 102" and l2: "length (map terminated ?rows2) = 102"
    by simp_all
  have f: "nan_eq (digits_conv (hd (split_line (hd (map terminated ?rows2)))))
             (digits_conv (hd (split_line (hd (map terminated ?rows1)))))"
    unfolding sample_anchor by (simp add: digits_conv_str_nat nan_eq_def)
  show ?thesis
    by (rule glowparse_well_formed [where conv = digits_conv and feq = nan_eq
          and ?rows1.0 = "map terminated ?rows1" and ?rows2.0 = "map terminated ?rows2"
          and rest = "[]", OF l h l1 sample_rows(4) l2 sample_rows(6) f])
qed

text \<open>
  Counterexample to C1 as stated. The text has the first line, the header row of
  10 fields, 102 rows of 14 fields and 102 rows of 16 fields with the same first
  altitude, and nothing else. Each call of \<open>genfromtxt\<close> for a block skips
  one line first (\<open>skip_header=1\<close>), so the first row of the first block is
  dropped, the reader goes on into the second block in search of the 102nd row
  and finds lines of 16 fields where it expects 14: \<open>ValueError\<close>.
\<close>

theorem untitled_blocks_counterexample:
  "length (split_line (terminated header_line)) = 10 \<and>
   length (map (profile_row 100) [0..<102]) = 102 \<and>
   length (split_line (terminated (profile_row 100 0))) = 14 \<and>
   length (map (ver_row 100) [0..<102]) = 102 \<and>
   length (split_line (terminated (ver_row 100 0))) = 16 \<and>
   hd (split_line (terminated (ver_row 100 0))) =
     hd (split_line (terminated (profile_row 100 0))) \<and>
   glowparse digits_conv nan_eq
     (unlines (echo_line # header_line # map (profile_row 100) [0..<102] @
               map (ver_row 100) [0..<102])) = Inl ValueError"
proof -
  let ?rows1 = "map (profile_row 100) [0..<102]"
  let ?rows2 = "map (ver_row 100) [0..<102]"
  have "\<forall>l\<in>set (echo_line # header_line # ?rows1 @ ?rows2). newline \<notin> set l"
    by (auto simp: no_newline_sample)
  from iter_lines_unlines [OF this]
  have l: "iter_lines (unlines (echo_line # header_line # ?rows1 @ ?rows2)) =
      terminated echo_line # terminated header_line # map terminated ?rows1 @ map terminated ?rows2"
    by simp
  have h: "length (split_line (terminated header_line)) = 10"
    by (simp add: fields_header_line)
  have l1: "length (map terminated ?rows1) = 102" and l2: "length (map terminated ?rows2) = 102"
    by simp_all
  have "glowparse digits_conv nan_eq (unlines (echo_line # header_line # ?rows1 @ ?rows2)) =
      Inl ValueError"
    by (rule glowparse_untitled [OF l h l1 sample_rows(4) l2 sample_rows(6)])
  then show ?thesis
    by (simp add: fields_header_line fields_profile_row fields_ver_row)
qed

text \<open>
  Claim C2, as amended. For a text made of a first line, a header row of 10
  fields, one skipped line, 102 rows of 14 fields, one skipped line and 102
  rows of 16 fields with matching first altitude, \<open>glowparse\<close> succeeds, and
  the first named quantity, \<open>Tn\<close>, at the first altitude index is the
  converted field at row 0, column 1 of the first block.
\<close>

theorem glowparse_first_quantity:
  assumes "iter_lines raw = echo # hdr # title1 # rows1 @ title2 # rows2 @ rest"
    and "length (split_line hdr) = 10"
    and "length rows1 = 102" and "\<forall>r\<in>set rows1. length (split_line r) = 14"
    and "length rows2 = 102" and "\<forall>r\<in>set rows2. length (split_line r) = 16"
    and "feq (conv (hd (split_line (hd rows2)))) (conv (hd (split_line (hd rows1))))"
  shows "\<exists>ds p. glowparse conv feq raw = Inr ds \<and> hd glow_var = ''Tn'' \<and>
           getitem ds ''Tn'' = Some (Var1D p) \<and> p ! 0 = conv (split_line (rows1 ! 0) ! 1)"
proof -
  let ?ds = "assemble conv (map split_line rows1) (map split_line rows2)"
  have l: "iter_lines raw = echo # [] @ hdr # title1 # rows1 @ title2 # rows2 @ rest"
    using assms(1) by simp
  have g: "glowparse conv feq raw = Inr ?ds"
    using glowparse_layout [OF l _ assms(2-6), of conv feq] assms(7) by simp
  from assms(3) have ne: "rows1 \<noteq> []" by auto
  have t: "getitem ?ds ''Tn'' = Some (Var1D (map (\<lambda>r. conv (r ! 1)) (map split_line rows1)))"
    using ne assms(4) by (intro getitem_Tn) simp_all
  have "map (\<lambda>r. conv (r ! 1)) (map split_line rows1) ! 0 = conv (split_line (rows1 ! 0) ! 1)"
    using ne by (cases rows1) simp_all
  with g t show ?thesis by (simp add: glow_var_def)
qed

text \<open>
  The hypotheses of C2 hold for \<open>glow_text\<close>; the value selected is 200, the
  second field of row 0 of the first block.
\<close>

theorem glowparse_first_quantity_witness:
  "\<exists>ds p. glowparse digits_conv nan_eq
          (glow_text header_line (map (profile_row 80) [0..<102])
             (map (ver_row 80) [0..<102])) = Inr ds \<and>
        getitem ds ''Tn'' = Some (Var1D p) \<and> p ! 0 = Some 200"
proof -
  let ?rows1 = "map (profile_row 80) [0..<102]"
  let ?rows2 = "map (ver_row 80) [0..<102]"
  have l: "iter_lines (glow_text header_line ?rows1 ?rows2) =
     terminated echo_line # terminated header_line # terminated title_line1 #
     map terminated ?rows1 @ terminated title_line2 # map terminated ?rows2 @ []"
    using iter_lines_glow_text [OF no_newline_sample(2) sample_rows(1) sample_rows(3)] by simp
  have h: "length (split_line (terminated header_line)) = 10"
    by (simp add: fields_header_line)
  have l1: "length (map terminated ?rows1) = 102" and l2: "length (map terminated ?rows2) = 102"
    by simp_all
  have f: "nan_eq (digits_conv (hd (split_line (hd (map terminated ?rows2)))))
             (digits_conv (hd (split_line (hd (map terminated ?rows1)))))"
    unfolding sample_anchor by (simp add: digits_conv_str_nat nan_eq_def)
  have v: "digits_conv (split_line (map terminated ?rows1 ! 0) ! 1) = Some 200"
    by (simp add: fields_profile_row digits_conv_str_nat)
  from glowparse_first_quantity [where conv = digits_conv and feq = nan_eq
          and ?rows1.0 = "map terminated ?rows1" and ?rows2.0 = "map terminated ?rows2"
          and rest = "[]", OF l h l1 sample_rows(4) l2 sample_rows(6) f] v
  show ?thesis by auto
qed

text \<open>
  Counterexample to C2 as stated: on the text with exactly one first line, one
  header line of 10 fields, 102 rows of 14 fields and 102 rows of 16 fields
  with matching first altitude, \<open>glowparse\<close> raises \<open>ValueError\<close>, because
  one line is skipped before each block.
\<close>

theorem synthetic_input_counterexample:
  "length (split_line (terminated header_line)) = 10 \<and>
   length (map (profile_row 80) [0..<102]) = 102 \<and>
   length (split_line (terminated (profile_row 80 0))) = 14 \<and>
   length (map (ver_row 80) [0..<102]) = 102 \<and>
   length (split_line (terminated (ver_row 80 0))) = 16 \<and>
   hd (split_line (terminated (ver_row 80 0))) =
     hd (split_line (terminated (profile_row 80 0))) \<and>
   glowparse digits_conv nan_eq
     (unlines (echo_line # header_line # map (profile_row 80) [0..<102] @
               map (ver_row 80) [0..<102])) = Inl ValueError"
proof -
  let ?rows1 = "map (profile_row 80) [0..<102]"
  let ?rows2 = "map (ver_row 80) [0..<102]"
  have "\<forall>l\<in>set (echo_line # header_line # ?rows1 @ ?rows2). newline \<notin> set l"
    by (auto simp: no_newline_sample)
  from iter_lines_unlines [OF this]
  have l: "iter_lines (unlines (echo_line # header_line # ?rows1 @ ?rows2)) =
      terminated echo_line # terminated header_line # map terminated ?rows1 @ map terminated ?rows2"
    by simp
  have h: "length (split_line (terminated header_line)) = 10"
    by (simp add: fields_header_line)
  have l1: "length (map terminated ?rows1) = 102" and l2: "length (map terminated ?rows2) = 102"
    by simp_all
  have "glowparse digits_conv nan_eq (unlines (echo_line # header_line # ?rows1 @ ?rows2)) =
      Inl ValueError"
    by (rule glowparse_untitled [OF l h l1 sample_rows(4) l2 sample_rows(6)])
  then show ?thesis
    by (simp add: fields_header_line fields_profile_row fields_ver_row)
qed

text \<open>
  Claim C3, as amended. When the header row, the first line after the first
  one that has any field, does not have exactly 10 fields (or there is no such
  line), \<open>glowparse\<close> raises \<open>AssertionError\<close>. The outcome is fixed by
  the header row alone: the statement holds whatever the text contains after it,
  so no row of a data block contributes to it.
\<close>

theorem header_not_ten_fields:
  assumes "length (header_row raw) \<noteq> 10"
  shows "glowparse conv feq raw = Inl AssertionError"
proof -
  obtain header where g: "genfromtxt conv (iter_lines raw) 1 1 = Inr (header, after_header raw)"
    and s: "ndsize header = length (header_row raw)"
    using header_size [of conv raw] by blast
  from s assms have "(ndsize header \<noteq> 10) = True" by simp
  then show ?thesis
    unfolding glowparse_def glowparse_table_def
    by (simp only: g sum.case prod.case if_True)
qed

text \<open>
  C3 at a text whose header row has three fields, followed by two data blocks
  that are in order.
\<close>

theorem header_not_ten_fields_witness:
  "header_row (glow_text short_header_line (map (profile_row 80) [0..<102])
     (map (ver_row 80) [0..<102])) = [''2015347'', ''36000'', ''65''] \<and>
   glowparse digits_conv nan_eq
     (glow_text short_header_line (map (profile_row 80) [0..<102])
        (map (ver_row 80) [0..<102])) = Inl AssertionError"
proof -
  let ?rows1 = "map (profile_row 80) [0..<102]"
  let ?rows2 = "map (ver_row 80) [0..<102]"
  let ?T = "glow_text short_header_line ?rows1 ?rows2"
  note l = iter_lines_glow_text [OF no_newline_sample(5) sample_rows(1) sample_rows(3)]
  have h: "header_row ?T = [''2015347'', ''36000'', ''65'']"
    using header_row_layout(1) [OF l] by (simp add: fields_short_header_line)
  then have "length (header_row ?T) \<noteq> 10" by simp
  from header_not_ten_fields [OF this, of digits_conv nan_eq] h show ?thesis by simp
qed

text \<open>
  Counterexample to C3 as stated: the second line of this text is blank, so it
  does not contain exactly 10 fields, but \<open>genfromtxt\<close> passes over lines
  without fields and takes the third line, which has 10 fields, as the header
  row; the text is parsed successfully.
\<close>

theorem blank_second_line_counterexample:
  "length (split_line (iter_lines (unlines (echo_line # [] # header_line # title_line1 #
      map (profile_row 80) [0..<102] @ title_line2 # map (ver_row 80) [0..<102])) ! 1)) \<noteq> 10 \<and>
   \<not> isl (glowparse digits_conv nan_eq (unlines (echo_line # [] # header_line # title_line1 #
      map (profile_row 80) [0..<102] @ title_line2 # map (ver_row 80) [0..<102])))"
proof -
  let ?rows1 = "map (profile_row 80) [0..<102]"
  let ?rows2 = "map (ver_row 80) [0..<102]"
  let ?T = "unlines (echo_line # [] # header_line # title_line1 # ?rows1 @ title_line2 # ?rows2)"
  have "\<forall>l\<in>set (echo_line # [] # header_line # title_line1 # ?rows1 @ title_line2 # ?rows2).
      newline \<notin> set l"
    by (auto simp: no_newline_sample)
  from iter_lines_unlines [OF this]
  have l: "iter_lines ?T = terminated echo_line # [terminated []] @ terminated header_line #
      terminated title_line1 # map terminated ?rows1 @ terminated title_line2 #
      map terminated ?rows2 @ []"
    by simp
  have b: "\<forall>b\<in>set [terminated []]. split_line b = []" by (simp add: fields_blank)
  have h: "length (split_line (terminated header_line)) = 10"
    by (simp add: fields_header_line)
  have l1: "length (map terminated ?rows1) = 102" and l2: "length (map terminated ?rows2) = 102"
    by simp_all
  have f: "nan_eq (digits_conv (hd (split_line (hd (map terminated ?rows2)))))
             (digits_conv (hd (split_line (hd (map terminated ?rows1)))))"
    unfolding sample_anchor by (simp add: digits_conv_str_nat nan_eq_def)
  have "\<not> isl (glowparse digits_conv nan_eq ?T)"
    using glowparse_layout [OF l b h l1 sample_rows(4) l2 sample_rows(6), of digits_conv nan_eq] f
    by simp
  moreover have "iter_lines ?T ! 1 = terminated []" using l by simp
  ultimately show ?thesis by (simp add: fields_blank)
qed

text \<open>
  Claim C4. When the first data block does not have 13 data columns beside the
  altitude column, \<open>glowparse\<close> raises. When moreover the header row is in
  order, the block has its 102 rows, no ragged line, and at least two columns,
  the exception is the \<open>ValueError\<close> of the explicit column check.
\<close>

theorem column_count_enforced:
  "(int (ncols (first_block raw)) - 1 \<noteq> 13 \<longrightarrow> (\<exists>e. glowparse conv feq raw = Inl e)) \<and>
   (length (header_row raw) = 10 \<and> first_block_invalid raw = [] \<and>
    length (first_block raw) = 102 \<and> 2 \<le> ncols (first_block raw) \<and>
    ncols (first_block raw) \<noteq> 14 \<longrightarrow> glowparse conv feq raw = Inl ValueError)"
proof (intro conjI impI)
  assume a: "int (ncols (first_block raw)) - 1 \<noteq> 13"
  show "\<exists>e. glowparse conv feq raw = Inl e"
  proof (cases "glowparse conv feq raw")
    case (Inl e)
    then show ?thesis by blast
  next
    case (Inr ds)
    from glowparse_InrD(2,3) [OF Inr] have "ncols (first_block raw) = 14"
      by (cases "first_block raw") (auto simp: ncols_def)
    with a show ?thesis by simp
  qed
next
  assume "length (header_row raw) = 10 \<and> first_block_invalid raw = [] \<and>
    length (first_block raw) = 102 \<and> 2 \<le> ncols (first_block raw) \<and>
    ncols (first_block raw) \<noteq> 14"
  then show "glowparse conv feq raw = Inl ValueError"
    by (intro glowparse_wrong_columns) simp_all
qed

text \<open>
  C4 at a text whose first block has 102 rows of 13 fields, that is 12 data
  columns.
\<close>

theorem column_count_enforced_witness:
  "length (first_block (glow_text header_line (map (narrow_row 80) [0..<102])
      (map (ver_row 80) [0..<102]))) = 102 \<and>
   ncols (first_block (glow_text header_line (map (narrow_row 80) [0..<102])
      (map (ver_row 80) [0..<102]))) = 13 \<and>
   glowparse digits_conv nan_eq (glow_text header_line (map (narrow_row 80) [0..<102])
      (map (ver_row 80) [0..<102])) = Inl ValueError"
proof -
  let ?rows1 = "map (narrow_row 80) [0..<102]"
  let ?rows2 = "map (ver_row 80) [0..<102]"
  let ?T = "glow_text header_line ?rows1 ?rows2"
  note l = iter_lines_glow_text [OF no_newline_sample(2) sample_rows(2) sample_rows(3)]
  have hne: "split_line (terminated header_line) \<noteq> []" by (simp add: fields_header_line)
  have b: "\<forall>b\<in>set []. split_line b = []" by simp
  note hr = header_row_layout [OF l b hne]
  have fb: "first_block ?T = map split_line (map terminated ?rows1)"
    "first_block_invalid ?T = []"
    using first_block_layout [OF hr(2) _ sample_rows(5)] by simp_all
  have h10: "length (header_row ?T) = 10" using hr(1) by (simp add: fields_header_line)
  have len: "length (first_block ?T) = 102" using fb(1) by simp
  have nc: "ncols (first_block ?T) = 13"
    using fb(1) by (simp add: ncols_def upt_conv_Cons fields_narrow_row)
  from column_count_enforced [of ?T digits_conv nan_eq] h10 fb(2) len nc
  show ?thesis by simp
qed

text \<open>
  Claim C5. When the first altitude of the second data block differs from the
  first altitude of the first data block, \<open>glowparse\<close> raises; when
  everything else is in order the exception is the \<open>AssertionError\<close> of the
  comparison.
\<close>

theorem altitude_anchor_enforced:
  assumes "first_block raw \<noteq> []" and "second_block raw \<noteq> []"
    and "\<not> feq (conv (hd (hd (second_block raw)))) (conv (hd (hd (first_block raw))))"
  shows "(\<exists>e. glowparse conv feq raw = Inl e) \<and>
    (length (header_row raw) = 10 \<and>
     first_block_invalid raw = [] \<and> length (first_block raw) = 102 \<and>
     ncols (first_block raw) = 14 \<and>
     second_block_invalid raw = [] \<and> length (second_block raw) = 102 \<and>
     ncols (second_block raw) = 16 \<longrightarrow> glowparse conv feq raw = Inl AssertionError)"
proof (intro conjI impI)
  show "\<exists>e. glowparse conv feq raw = Inl e"
  proof (cases "glowparse conv feq raw")
    case (Inl e)
    then show ?thesis by blast
  next
    case (Inr ds)
    from glowparse_InrD(6) [OF Inr] assms(3) show ?thesis by simp
  qed
next
  assume "length (header_row raw) = 10 \<and>
     first_block_invalid raw = [] \<and> length (first_block raw) = 102 \<and>
     ncols (first_block raw) = 14 \<and>
     second_block_invalid raw = [] \<and> length (second_block raw) = 102 \<and>
     ncols (second_block raw) = 16"
  then have "glowparse conv feq raw =
    (if feq (conv (hd (hd (second_block raw)))) (conv (hd (hd (first_block raw))))
     then Inr (assemble conv (first_block raw) (second_block raw))
     else Inl AssertionError)"
    by (intro glowparse_shaped) simp_all
  with assms(3) show "glowparse conv feq raw = Inl AssertionError" by simp
qed

text \<open>
  C5 at a text whose blocks start at altitudes 80 and 90.
\<close>

theorem altitude_anchor_enforced_witness:
  "hd (hd (first_block (glow_text header_line (map (profile_row 80) [0..<102])
      (map (ver_row 90) [0..<102])))) = ''80'' \<and>
   hd (hd (second_block (glow_text header_line (map (profile_row 80) [0..<102])
      (map (ver_row 90) [0..<102])))) = ''90'' \<and>
   glowparse digits_conv nan_eq (glow_text header_line
      (map (profile_row 80) [0..<102]) (map (ver_row 90) [0..<102])) =
   Inl AssertionError"
proof -
  let ?rows1 = "map (profile_row 80) [0..<102]"
  let ?rows2 = "map (ver_row 90) [0..<102]"
  let ?T = "glow_text header_line ?rows1 ?rows2"
  note l = iter_lines_glow_text [OF no_newline_sample(2) sample_rows(1) sample_rows(3)]
  have hne: "split_line (terminated header_line) \<noteq> []" by (simp add: fields_header_line)
  have b: "\<forall>b\<in>set []. split_line b = []" by simp
  note hr = header_row_layout [OF l b hne]
  note fb = first_block_layout [OF hr(2) _ sample_rows(4)]
  have fb1: "first_block ?T = map split_line (map terminated ?rows1)"
    and fbi: "first_block_invalid ?T = []"
    and afb: "after_first_block ?T = terminated title_line2 # map terminated ?rows2 @ []"
    using fb by simp_all
  note sb = second_block_layout [OF afb _ sample_rows(6)]
  have sb1: "second_block ?T = map split_line (map terminated ?rows2)"
    and sbi: "second_block_invalid ?T = []"
    using sb by simp_all
  have n80: "str_nat 80 = ''80''" and n90: "str_nat 90 = ''90''"
    by (simp_all add: str_nat.simps digit_char_def)
  have a1: "hd (hd (first_block ?T)) = ''80''"
    using fb1 by (simp add: upt_conv_Cons fields_profile_row n80)
  have a2: "hd (hd (second_block ?T)) = ''90''"
    using sb1 by (simp add: upt_conv_Cons fields_ver_row n90)
  have ne1: "first_block ?T \<noteq> []" and ne2: "second_block ?T \<noteq> []"
    using fb1 sb1 by simp_all
  have d: "\<not> nan_eq (digits_conv (hd (hd (second_block ?T))))
      (digits_conv (hd (hd (first_block ?T))))"
    unfolding a1 a2 n80 [symmetric] n90 [symmetric]
    by (simp add: digits_conv_str_nat nan_eq_def)
  have h10: "length (header_row ?T) = 10" using hr(1) by (simp add: fields_header_line)
  have s1: "length (first_block ?T) = 102" "ncols (first_block ?T) = 14"
    using fb1 by (simp_all add: ncols_def upt_conv_Cons fields_profile_row)
  have s2: "length (second_block ?T) = 102" "ncols (second_block ?T) = 16"
    using sb1 by (simp_all add: ncols_def upt_conv_Cons fields_ver_row)
  from altitude_anchor_enforced [where conv = digits_conv and feq = nan_eq, OF ne1 ne2 d]
    h10 fbi s1 sbi s2 a1 a2
  show ?thesis by simp
qed

text \<open>
  Claim C6. A block never has more than 102 rows, and when either block has
  fewer, \<open>glowparse\<close> raises: no dataset is returned from the rows that were
  present.
\<close>

theorem row_count_enforced:
  "length (first_block raw) \<le> 102 \<and> length (second_block raw) \<le> 102 \<and>
   (length (first_block raw) < 102 \<or> length (second_block raw) < 102 \<longrightarrow>
      (\<exists>e. glowparse conv feq raw = Inl e))"
proof (intro conjI impI)
  show "length (first_block raw) \<le> 102"
    using scan_rows_props(2) [OF scan_first_block [of raw]] by (simp add: Nalt_def)
  show "length (second_block raw) \<le> 102"
    using scan_rows_props(2) [OF scan_second_block [of raw]] by (simp add: Nalt_def)
  assume a: "length (first_block raw) < 102 \<or> length (second_block raw) < 102"
  show "\<exists>e. glowparse conv feq raw = Inl e"
  proof (cases "glowparse conv feq raw")
    case (Inl e)
    then show ?thesis by blast
  next
    case (Inr ds)
    from glowparse_InrD(2,4) [OF Inr] a show ?thesis by simp
  qed
qed

text \<open>
  C6 at a text whose second block has 50 rows.
\<close>

theorem row_count_enforced_witness:
  "length (first_block (glow_text header_line (map (profile_row 80) [0..<102])
      (map (ver_row 80) [0..<50]))) = 102 \<and>
   length (second_block (glow_text header_line (map (profile_row 80) [0..<102])
      (map (ver_row 80) [0..<50]))) = 50 \<and>
   isl (glowparse digits_conv nan_eq (glow_text header_line
      (map (profile_row 80) [0..<102]) (map (ver_row 80) [0..<50])))"
proof -
  let ?rows1 = "map (profile_row 80) [0..<102]"
  let ?rows2 = "map (ver_row 80) [0..<50]"
  let ?T = "glow_text header_line ?rows1 ?rows2"
  note l = iter_lines_glow_text [OF no_newline_sample(2) sample_rows(1) sample_rows(3)]
  have hne: "split_line (terminated header_line) \<noteq> []" by (simp add: fields_header_line)
  have b: "\<forall>b\<in>set []. split_line b = []" by simp
  note hr = header_row_layout [OF l b hne]
  note fb = first_block_layout [OF hr(2) _ sample_rows(4)]
  have fb1: "first_block ?T = map split_line (map terminated ?rows1)"
    and afb: "after_first_block ?T = terminated title_line2 # map terminated ?rows2"
    using fb by simp_all
  have sb1: "second_block ?T = map split_line (map terminated ?rows2)"
    using second_block_short [OF afb _ _ sample_rows(6)] by simp
  have s1: "length (first_block ?T) = 102" using fb1 by simp
  have s2: "length (second_block ?T) = 50" using sb1 by simp
  from row_count_enforced [of ?T digits_conv nan_eq] s1 s2
  show ?thesis by auto
qed

text \<open>
  Claim C7, as amended. For every timestamp, the date string is the decimal
  year, which has four digits from the year 1000 on, followed by the day of the
  year as three digits, padded with zeros; the other string is the decimal
  number of seconds since midnight. On the first of January the date string is
  the year followed by 001, at midnight the seconds string is 0, and at
  23:59:59 it is 86399.
\<close>

theorem glowdate_fields:
  assumes "valid_datetime t"
  shows "fst (glowdate t) = str_nat (year t) @ strftime_j t \<and>
         int_of_digits (str_nat (year t)) = year t \<and>
         (1000 \<le> year t \<longrightarrow> length (str_nat (year t)) = 4) \<and>
         length (strftime_j t) = 3 \<and> int_of_digits (strftime_j t) = yday t \<and>
         snd (glowdate t) = str_nat (hour t * 3600 + minute t * 60 + second t) \<and>
         (month t = 1 \<and> day t = 1 \<longrightarrow> fst (glowdate t) = str_nat (year t) @ ''001'') \<and>
         (hour t = 0 \<and> minute t = 0 \<and> second t = 0 \<longrightarrow> snd (glowdate t) = ''0'') \<and>
         (hour t = 23 \<and> minute t = 59 \<and> second t = 59 \<longrightarrow> snd (glowdate t) = ''86399'')"
proof (intro conjI)
  show "fst (glowdate t) = str_nat (year t) @ strftime_j t"
    by (simp add: glowdate_def Let_def)
  show "int_of_digits (str_nat (year t)) = year t"
    by (rule int_of_digits_str_nat)
  show "1000 \<le> year t \<longrightarrow> length (str_nat (year t)) = 4"
    using assms by (auto simp: valid_datetime_def intro: length_str_nat_4)
  show "length (strftime_j t) = 3"
    using assms by (rule length_strftime_j)
  show "int_of_digits (strftime_j t) = yday t"
    by (simp add: strftime_j_def int_of_digits_zpad int_of_digits_str_nat)
  show "snd (glowdate t) = str_nat (hour t * 3600 + minute t * 60 + second t)"
    by (simp add: glowdate_def Let_def)
  show "month t = 1 \<and> day t = 1 \<longrightarrow> fst (glowdate t) = str_nat (year t) @ ''001''"
    by (simp add: glowdate_new_year)
  show "hour t = 0 \<and> minute t = 0 \<and> second t = 0 \<longrightarrow> snd (glowdate t) = ''0''"
    by (simp add: glowdate_def Let_def str_nat.simps digit_char_def)
  show "hour t = 23 \<and> minute t = 59 \<and> second t = 59 \<longrightarrow> snd (glowdate t) = ''86399''"
    by (simp add: glowdate_def Let_def str_nat.simps digit_char_def)
qed

text \<open>
  C7 at 13 December 2015, 10:00:00.
\<close>

theorem glowdate_fields_witness:
  "valid_datetime \<lparr>year = 2015, month = 12, day = 13, hour = 10, minute = 0, second = 0,
      microsecond = 0\<rparr> \<and>
   glowdate \<lparr>year = 2015, month = 12, day = 13, hour = 10, minute = 0, second = 0,
      microsecond = 0\<rparr> = (''2015347'', ''36000'')"
proof -
  let ?t = "\<lparr>year = 2015, month = 12, day = 13, hour = 10, minute = 0, second = 0,
      microsecond = 0\<rparr>"
  have v: "valid_datetime ?t"
    by (simp add: valid_datetime_def days_in_month_def DAYS_IN_MONTH_def)
  have j: "strftime_j ?t = ''347''"
    by (simp add: strftime_j_def yday_def days_before_month_def DAYS_IN_MONTH_def is_leap_def
          zpad_def str_nat.simps digit_char_def)
  have y: "str_nat 2015 = ''2015''" by (simp add: str_nat.simps digit_char_def)
  have s: "str_nat 36000 = ''36000''" by (simp add: str_nat.simps digit_char_def)
  from glowdate_fields [OF v] j y s
  have "glowdate ?t = (''2015347'', ''36000'')"
    by (simp add: prod_eq_iff)
  with v show ?thesis by simp
qed

text \<open>
  Counterexample to C7 as stated: \<open>datetime(999, 1, 1)\<close> is a timestamp, and
  \<open>f'{t.year}'\<close> does not pad, so the date string is \<open>999001\<close>, six
  characters, not a four-digit year followed by three digits.
\<close>

theorem glowdate_year_999_counterexample:
  "valid_datetime \<lparr>year = 999, month = 1, day = 1, hour = 0, minute = 0, second = 0,
      microsecond = 0\<rparr> \<and>
   fst (glowdate \<lparr>year = 999, month = 1, day = 1, hour = 0, minute = 0, second = 0,
      microsecond = 0\<rparr>) = ''999001'' \<and>
   length (fst (glowdate \<lparr>year = 999, month = 1, day = 1, hour = 0, minute = 0, second = 0,
      microsecond = 0\<rparr>)) \<noteq> 4 + 3"
  by (simp add: valid_datetime_def days_in_month_def DAYS_IN_MONTH_def glowdate_def Let_def
        strftime_j_def yday_def days_before_month_def zpad3_single str_nat.simps digit_char_def)

text \<open>
  Claim C8. When no formatted number contains a space, the line \<open>maxwellian\<close>
  passes to the executable splits at its spaces into exactly these 10 fields in
  this order: date, seconds since midnight, latitude, longitude, the 81-day
  average F10.7 of the day, the F10.7 of the day, the F10.7 of the previous
  day, Ap of the day, energy flux, characteristic energy. A line is produced
  whenever the index table has its two rows.
\<close>

theorem maxwellian_input_fields:
  assumes "\<forall>x. CHR '' '' \<notin> set (fmt x)"
  shows "(2 \<le> length (f107s ip) \<and> 2 \<le> length (f107 ip) \<and> 2 \<le> length (Ap ip) \<longrightarrow>
            (\<exists>line. maxwellian_input fmt time glat glon ip Q Echar = Inr line)) \<and>
         (\<forall>line. maxwellian_input fmt time glat glon ip Q Echar = Inr line \<longrightarrow>
            split_sp line =
              [fst (glowdate time), snd (glowdate time), fmt glat, fmt glon,
               fmt (f107s ip ! 1), fmt (f107 ip ! 1), fmt (f107 ip ! 0), fmt (Ap ip ! 1),
               fmt Q, fmt Echar])"
proof (intro conjI impI allI)
  assume "2 \<le> length (f107s ip) \<and> 2 \<le> length (f107 ip) \<and> 2 \<le> length (Ap ip)"
  then show "\<exists>line. maxwellian_input fmt time glat glon ip Q Echar = Inr line"
    by (auto simp: maxwellian_input_def iloc_def split: prod.splits)
next
  fix line
  assume a: "maxwellian_input fmt time glat glon ip Q Echar = Inr line"
  obtain idate utsec where g: "glowdate time = (idate, utsec)" by (cases "glowdate time")
  have ns: "CHR '' '' \<notin> set idate" "CHR '' '' \<notin> set utsec"
    using no_space_glowdate [of time] g by simp_all
  from a g have line: "line = idate @ '' '' @ utsec @ '' '' @ fmt glat @ '' '' @ fmt glon @ '' '' @
             fmt (f107s ip ! 1) @ '' '' @ fmt (f107 ip ! 1) @ '' '' @ fmt (f107 ip ! 0) @ '' '' @
             fmt (Ap ip ! 1) @ '' '' @ fmt Q @ '' '' @ fmt Echar"
    by (auto simp: maxwellian_input_def iloc_def split: if_splits)
  have "split_sp line = [idate, utsec, fmt glat, fmt glon,
               fmt (f107s ip ! 1), fmt (f107 ip ! 1), fmt (f107 ip ! 0), fmt (Ap ip ! 1),
               fmt Q, fmt Echar]"
    unfolding line using ns assms
    by (simp add: split_sp_field split_sp_last)
  with g show "split_sp line =
              [fst (glowdate time), snd (glowdate time), fmt glat, fmt glon,
               fmt (f107s ip ! 1), fmt (f107 ip ! 1), fmt (f107 ip ! 0), fmt (Ap ip ! 1),
               fmt Q, fmt Echar]" by simp
qed

text \<open>
  C8 at a concrete call, with numbers formatted as decimal integers.
\<close>

theorem maxwellian_input_fields_witness:
  "maxwellian_input str_nat
     \<lparr>year = 2015, month = 12, day = 13, hour = 10, minute = 0, second = 0, microsecond = 0\<rparr>
     65 148 \<lparr>f107s = [70, 71], f107 = [72, 73], Ap = [4, 5]\<rparr> 3 2000 =
   Inr ''2015347 36000 65 148 71 73 72 5 3 2000'' \<and>
   split_sp ''2015347 36000 65 148 71 73 72 5 3 2000'' =
     [''2015347'', ''36000'', ''65'', ''148'', ''71'', ''73'', ''72'', ''5'', ''3'', ''2000'']"
proof -
  let ?t = "\<lparr>year = 2015, month = 12, day = 13, hour = 10, minute = 0, second = 0,
      microsecond = 0\<rparr>"
  let ?ip = "\<lparr>f107s = [70, 71], f107 = [72, 73], Ap = [4::nat, 5]\<rparr>"
  have g: "glowdate ?t = (''2015347'', ''36000'')"
    by (simp add: glowdate_def Let_def strftime_j_def yday_def days_before_month_def
          DAYS_IN_MONTH_def is_leap_def zpad_def str_nat.simps digit_char_def)
  have m: "maxwellian_input str_nat ?t 65 148 ?ip 3 2000 =
      Inr ''2015347 36000 65 148 71 73 72 5 3 2000''"
    by (simp add: maxwellian_input_def g iloc_def str_nat.simps digit_char_def)
  have n: "\<forall>x. CHR '' '' \<notin> set (str_nat x)"
    by (simp add: no_space_str_nat)
  have v: "str_nat 65 = ''65''" "str_nat 148 = ''148''" "str_nat 71 = ''71''"
    "str_nat 73 = ''73''" "str_nat 72 = ''72''" "str_nat 5 = ''5''" "str_nat 3 = ''3''"
    "str_nat 2000 = ''2000''"
    by (simp_all add: str_nat.simps digit_char_def)
  from maxwellian_input_fields [OF n, of ?ip ?t 65 148 3 2000] m
  have "split_sp ''2015347 36000 65 148 71 73 72 5 3 2000'' =
     [fst (glowdate ?t), snd (glowdate ?t), str_nat 65, str_nat 148, str_nat (f107s ?ip ! 1),
      str_nat (f107 ?ip ! 1), str_nat (f107 ?ip ! 0), str_nat (Ap ?ip ! 1), str_nat 3,
      str_nat 2000]"
    by blast
  then have "split_sp ''2015347 36000 65 148 71 73 72 5 3 2000'' =
     [''2015347'', ''36000'', ''65'', ''148'', ''71'', ''73'', ''72'', ''5'', ''3'', ''2000'']"
    by (simp add: g v)
  with m show ?thesis by simp
qed

text \<open>
  Claim C9. Two texts of the layout that differ only in the altitude fields of
  the second block after its first row give the same result. The altitude
  coordinate of the dataset is column 0 of the first block, and a dataset is
  returned whenever the first altitudes of the two blocks are equal.
\<close>

theorem second_block_altitudes_unused:
  assumes "iter_lines raw = echo # hdr # title1 # rows1 @ title2 # rows2 @ rest"
    and "iter_lines raw' = echo # hdr # title1 # rows1 @ title2 # rows2' @ rest"
    and "length (split_line hdr) = 10"
    and "length rows1 = 102" and "\<forall>r\<in>set rows1. length (split_line r) = 14"
    and "length rows2 = 102" and "\<forall>r\<in>set rows2. length (split_line r) = 16"
    and "map (\<lambda>r. tl (split_line r)) rows2' = map (\<lambda>r. tl (split_line r)) rows2"
    and "hd (split_line (hd rows2')) = hd (split_line (hd rows2))"
  shows "glowparse conv feq raw' = glowparse conv feq raw \<and>
    (\<forall>ds. glowparse conv feq raw = Inr ds \<longrightarrow>
       alt_km ds = map (\<lambda>r. conv (hd (split_line r))) rows1) \<and>
    (feq (conv (hd (split_line (hd rows2)))) (conv (hd (split_line (hd rows1)))) \<longrightarrow>
       (\<exists>ds. glowparse conv feq raw = Inr ds))"
proof -
  let ?ok = "feq (conv (hd (split_line (hd rows2)))) (conv (hd (split_line (hd rows1))))"
  have len': "length rows2' = 102"
    using arg_cong [OF assms(8), of length] assms(6) by simp
  have cols': "\<forall>r\<in>set rows2'. length (split_line r) = 16"
  proof
    fix r assume "r \<in> set rows2'"
    then obtain i where i: "i < length rows2'" "r = rows2' ! i"
      by (auto simp: in_set_conv_nth)
    from i len' assms(6) have "map (\<lambda>r. tl (split_line r)) rows2' ! i = tl (split_line r)"
      and "map (\<lambda>r. tl (split_line r)) rows2 ! i = tl (split_line (rows2 ! i))"
      by simp_all
    with assms(8) have t: "tl (split_line r) = tl (split_line (rows2 ! i))" by simp
    from i len' assms(6,7) have "length (split_line (rows2 ! i)) = 16" by simp
    then have "length (tl (split_line (rows2 ! i))) = 15" by simp
    with t have "length (tl (split_line r)) = 15" by simp
    then show "length (split_line r) = 16" by (cases "split_line r") simp_all
  qed
  have l: "iter_lines raw = echo # [] @ hdr # title1 # rows1 @ title2 # rows2 @ rest"
    and l': "iter_lines raw' = echo # [] @ hdr # title1 # rows1 @ title2 # rows2' @ rest"
    using assms(1,2) by simp_all
  have g: "glowparse conv feq raw =
      (if ?ok then Inr (assemble conv (map split_line rows1) (map split_line rows2))
       else Inl AssertionError)"
    using glowparse_layout [OF l _ assms(3-7), of conv feq] by simp
  have g': "glowparse conv feq raw' =
      (if ?ok then Inr (assemble conv (map split_line rows1) (map split_line rows2'))
       else Inl AssertionError)"
    using glowparse_layout [OF l' _ assms(3-5) len' cols', of conv feq] assms(9) by simp
  have "map (\<lambda>r. map conv (tl r)) (map split_line rows2') =
        map (map conv) (map (\<lambda>r. tl (split_line r)) rows2')" by simp
  also have "\<dots> = map (map conv) (map (\<lambda>r. tl (split_line r)) rows2)"
    by (simp only: assms(8))
  also have "\<dots> = map (\<lambda>r. map conv (tl r)) (map split_line rows2)" by simp
  finally have "assemble conv (map split_line rows1) (map split_line rows2') =
      assemble conv (map split_line rows1) (map split_line rows2)"
    by (simp add: assemble_def)
  with g g' have e: "glowparse conv feq raw' = glowparse conv feq raw" by simp
  have a: "\<forall>ds. glowparse conv feq raw = Inr ds \<longrightarrow>
       alt_km ds = map (\<lambda>r. conv (hd (split_line r))) rows1"
    using g by (auto simp: assemble_def split: if_splits)
  from e a g show ?thesis by simp
qed

text \<open>
  C9 at two texts whose second blocks carry the altitudes 81 to 181 and 501 to
  601 in their rows 1 to 101.
\<close>

theorem second_block_altitudes_unused_witness:
  "glowparse digits_conv nan_eq (glow_text header_line
      (map (profile_row 80) [0..<102]) (ver_row 80 0 # map (ver_row 500) [1..<102])) =
   glowparse digits_conv nan_eq (glow_text header_line
      (map (profile_row 80) [0..<102]) (map (ver_row 80) [0..<102])) \<and>
   \<not> isl (glowparse digits_conv nan_eq (glow_text header_line
      (map (profile_row 80) [0..<102]) (map (ver_row 80) [0..<102]))) \<and>
   hd (split_line (terminated (ver_row 500 1))) \<noteq> hd (split_line (terminated (ver_row 80 1)))"
proof -
  let ?rows1 = "map (profile_row 80) [0..<102]"
  let ?rows2 = "map (ver_row 80) [0..<102]"
  let ?rows2' = "ver_row 80 0 # map (ver_row 500) [1..<102]"
  have u: "[0..<102] = 0 # [1..<102]" by (simp add: upt_conv_Cons)
  have n2': "\<forall>r\<in>set ?rows2'. newline \<notin> set r"
    by (auto simp: no_newline_sample)
  have l: "iter_lines (glow_text header_line ?rows1 ?rows2) =
     terminated echo_line # terminated header_line # terminated title_line1 #
     map terminated ?rows1 @ terminated title_line2 # map terminated ?rows2 @ []"
    using iter_lines_glow_text [OF no_newline_sample(2) sample_rows(1) sample_rows(3)] by simp
  have l': "iter_lines (glow_text header_line ?rows1 ?rows2') =
     terminated echo_line # terminated header_line # terminated title_line1 #
     map terminated ?rows1 @ terminated title_line2 # map terminated ?rows2' @ []"
    using iter_lines_glow_text [OF no_newline_sample(2) sample_rows(1) n2'] by simp
  have h: "length (split_line (terminated header_line)) = 10"
    by (simp add: fields_header_line)
  have l1: "length (map terminated ?rows1) = 102" and l2: "length (map terminated ?rows2) = 102"
    by simp_all
  have t: "map (\<lambda>r. tl (split_line r)) (map terminated ?rows2') =
      map (\<lambda>r. tl (split_line r)) (map terminated ?rows2)"
    unfolding u by (simp add: fields_ver_row)
  have a0: "hd (split_line (hd (map terminated ?rows2'))) =
      hd (split_line (hd (map terminated ?rows2)))"
    unfolding u by simp
  have f: "nan_eq (digits_conv (hd (split_line (hd (map terminated ?rows2)))))
             (digits_conv (hd (split_line (hd (map terminated ?rows1)))))"
    unfolding sample_anchor by (simp add: digits_conv_str_nat nan_eq_def)
  have "str_nat 501 \<noteq> str_nat 81"
    by (simp add: str_nat.simps digit_char_def)
  then have d: "hd (split_line (terminated (ver_row 500 1))) \<noteq>
      hd (split_line (terminated (ver_row 80 1)))"
    by (simp add: fields_ver_row)
  from second_block_altitudes_unused [where conv = digits_conv and feq = nan_eq
      and ?rows1.0 = "map terminated ?rows1" and ?rows2.0 = "map terminated ?rows2"
      and rows2' = "map terminated ?rows2'" and rest = "[]",
      OF l l' h l1 sample_rows(4) l2 sample_rows(6) t a0] f d
  show ?thesis by auto
qed

text \<open>
  Claim C10. For every timestamp, \<open>glowdate\<close> does not depend on the
  microseconds, and the seconds string is the decimal form of
  \<open>hour * 3600 + minute * 60 + second\<close>, a number between 0 and 86399.
\<close>

theorem glowdate_seconds:
  assumes "valid_datetime t"
  shows "glowdate (t\<lparr>microsecond := u\<rparr>) = glowdate t \<and>
         snd (glowdate t) = str_nat (int_of_digits (snd (glowdate t))) \<and>
         int_of_digits (snd (glowdate t)) = hour t * 3600 + minute t * 60 + second t \<and>
         int_of_digits (snd (glowdate t)) \<le> 86399"
  using assms utsec_bound [of t]
  by (simp add: glowdate_def Let_def strftime_j_def yday_def int_of_digits_str_nat)

text \<open>
  C10 at 13 December 2015, 23:59:59.999999.
\<close>

theorem glowdate_seconds_witness:
  "valid_datetime \<lparr>year = 2015, month = 12, day = 13, hour = 23, minute = 59, second = 59,
      microsecond = 999999\<rparr> \<and>
   glowdate (\<lparr>year = 2015, month = 12, day = 13, hour = 23, minute = 59, second = 59,
      microsecond = 999999\<rparr>\<lparr>microsecond := 0\<rparr>) =
   glowdate \<lparr>year = 2015, month = 12, day = 13, hour = 23, minute = 59, second = 59,
      microsecond = 999999\<rparr> \<and>
   int_of_digits (snd (glowdate \<lparr>year = 2015, month = 12, day = 13, hour = 23, minute = 59,
      second = 59, microsecond = 999999\<rparr>)) = 86399"
proof -
  let ?t = "\<lparr>year = 2015, month = 12, day = 13, hour = 23, minute = 59, second = 59,
      microsecond = 999999\<rparr>"
  have v: "valid_datetime ?t"
    by (simp add: valid_datetime_def days_in_month_def DAYS_IN_MONTH_def)
  from glowdate_seconds [OF v, of 0] v show ?thesis by simp
qed

end
